theory Spec2Isabelle
  imports Complex_Main "HOL-Library.Word"
begin

unbundle bit_operations_syntax

section \<open>Data model\<close>

text \<open>
  The notebook's custom autograd function \<^verbatim>\<open>BottleneckUnit\<close> works on torch tensors,
  on an in-memory byte stream and on PIL images. Tensors and streams are objects of the
  Python heap. A tensor is a handle into a store of storages: the address of its
  storage, the offset of its first element there, its sizes and its strides, so that
  two tensors can share one storage, as the result of \<^verbatim>\<open>view\<close> does, and need not be
  contiguous. A tensor handed to a call is an object of the store: its storage address
  is below the number of storages. Objects that a library call creates and drops before
  it returns are not recorded.
\<close>

type_synonym byte = "8 word"

text \<open>
  The value of a 32-bit float: a real number, an infinity or a NaN (signed zeros are
  not told apart).
\<close>

datatype f32 = Fin real | PInf | NInf | NaN

datatype error =
    ValueError string
  | RuntimeError string
  | OSError string

record tensor =
  storage :: nat
  offset :: nat
  shape :: "nat list"
  stride :: "nat list"

record bytesio =
  buf :: "byte list"
  pos :: nat

record world =
  storages :: "f32 list list"
  streams :: "bytesio list"

datatype mode = L | RGB | CMYK

text \<open>A PIL image of 8-bit samples; \<open>isize\<close> is PIL's \<^verbatim>\<open>size\<close>, (width, height).\<close>

record image =
  mode :: mode
  isize :: "nat \<times> nat"
  pixels :: "byte list"

text \<open>
  What the notebook takes from outside is a parameter of the model. The JPEG plugin
  of PIL: \<open>encode fmt quality im\<close> is what \<^verbatim>\<open>im.save(fp, fmt, quality=quality)\<close>
  writes, \<open>decode bs\<close> is the image \<^verbatim>\<open>Image.open\<close> reads from the bytes \<open>bs\<close>; both may
  raise. The conversion of a float to 8 bits where C++ leaves it undefined (the float
  is no finite number, or its integer part does not fit 64 bits): \<open>cast_undefined\<close> is
  what the platform gives there.
\<close>

record library =
  encode :: "string \<Rightarrow> nat \<Rightarrow> image \<Rightarrow> error + byte list"
  decode :: "byte list \<Rightarrow> error + image"
  cast_undefined :: "f32 \<Rightarrow> byte"

section \<open>Statements that run in the store and may raise\<close>

type_synonym 'a io = "world \<Rightarrow> error + ('a \<times> world)"

definition io_return :: "'a \<Rightarrow> 'a io" where
  "io_return v s = Inr (v, s)"

definition io_raise :: "error \<Rightarrow> 'a io" where
  "io_raise e s = Inl e"

definition io_bind :: "'a io \<Rightarrow> ('a \<Rightarrow> 'b io) \<Rightarrow> 'b io" where
  "io_bind m f s = (case m s of Inl e \<Rightarrow> Inl e | Inr (v, s') \<Rightarrow> f v s')"

section \<open>Arithmetic of 32-bit floats\<close>

text \<open>Rounding to the nearest integer, ties to the even one.\<close>

definition rne :: "real \<Rightarrow> int" where
  "rne x =
     (let f = \<lfloor>x\<rfloor>; d = x - of_int f in
      if d < 1 / 2 then f else if 1 / 2 < d then f + 1 else if even f then f else f + 1)"

text \<open>
  The binary exponent of a magnitude, searched from 127 down and not below -126, where
  the subnormal numbers begin.
\<close>

primrec exponent_search :: "nat \<Rightarrow> real \<Rightarrow> int" where
  "exponent_search 0 a = - 126"
| "exponent_search (Suc n) a =
     (if 2 powi (int n - 125) \<le> a then int n - 125 else exponent_search n a)"

text \<open>
  Rounding a real number to a 32-bit float: to the nearest number with 24 significant
  bits, ties to even, and to an infinity from \<open>2 ^ 128\<close> on.
\<close>

definition round_f32 :: "real \<Rightarrow> f32" where
  "round_f32 x =
     (let u = 2 powi (exponent_search 253 \<bar>x\<bar> - 23);
          r = of_int (rne (x / u)) * u
      in if 2 powi 128 \<le> r then PInf else if r \<le> - (2 powi 128) then NInf else Fin r)"

text \<open>\<^verbatim>\<open>pic.mul(255)\<close> on one element: the product, rounded.\<close>

fun mul255 :: "f32 \<Rightarrow> f32" where
  "mul255 (Fin v) = round_f32 (v * 255)"
| "mul255 v = v"

text \<open>
  \<^verbatim>\<open>img.float().div(255)\<close> on one 8-bit sample. The quotient is kept exact: it stands
  for the 32-bit float nearest to it.
\<close>

definition div255 :: "byte \<Rightarrow> f32" where
  "div255 p = Fin (of_nat (unat p) / 255)"

text \<open>
  \<^verbatim>\<open>Tensor.byte()\<close> on one element: the C++ conversion to a 64-bit integer, which drops
  the fraction (rounding toward zero), and from there to \<^verbatim>\<open>uint8_t\<close>, which keeps the low
  eight bits.
\<close>

definition byte_cast :: "(f32 \<Rightarrow> byte) \<Rightarrow> f32 \<Rightarrow> byte" where
  "byte_cast und v =
     (case v of
        Fin r \<Rightarrow>
          (let k = (if 0 \<le> r then \<lfloor>r\<rfloor> else \<lceil>r\<rceil>) in
           if - (2 ^ 63) \<le> k \<and> k < 2 ^ 63 then word_of_int k else und v)
      | _ \<Rightarrow> und v)"

section \<open>Tensors in the store\<close>

definition numel :: "tensor \<Rightarrow> nat" where
  "numel t = prod_list (shape t)"

text \<open>
  The places of the elements of a tensor, relative to its offset, in row-major order
  of the indices.
\<close>

fun offsets :: "nat list \<Rightarrow> nat list \<Rightarrow> nat list" where
  "offsets (n # ns) (k # ks) = concat (map (\<lambda>i. map (\<lambda>j. i * k + j) (offsets ns ks)) [0..<n])"
| "offsets ns ks = [0]"

definition element :: "world \<Rightarrow> tensor \<Rightarrow> nat \<Rightarrow> f32" where
  "element s t j = storages s ! storage t ! (offset t + j)"

text \<open>The values of a tensor, in row-major order of the indices.\<close>

definition contents :: "world \<Rightarrow> tensor \<Rightarrow> f32 list" where
  "contents s t = map (element s t) (offsets (shape t) (stride t))"

text \<open>The strides torch gives a contiguous tensor of the given sizes.\<close>

fun contiguous_strides :: "nat list \<Rightarrow> nat list" where
  "contiguous_strides [] = []"
| "contiguous_strides (n # ns) = prod_list (map (max 1) ns) # contiguous_strides ns"

definition new_tensor :: "nat list \<Rightarrow> f32 list \<Rightarrow> tensor io" where
  "new_tensor sizes vs s =
     Inr (\<lparr>storage = length (storages s), offset = 0, shape = sizes,
           stride = contiguous_strides sizes\<rparr>,
          s\<lparr>storages := storages s @ [vs]\<rparr>)"

section \<open>The library calls made by \<^verbatim>\<open>forward\<close>\<close>

text \<open>
  \<^verbatim>\<open>torch.zeros_like(x)\<close>: a new tensor of the sizes of \<open>x\<close>, filled with zeros. (The
  tensor is dropped a few statements later; its strides are taken contiguous.)
\<close>

definition zeros_like :: "tensor \<Rightarrow> tensor io" where
  "zeros_like x = new_tensor (shape x) (replicate (numel x) (Fin 0))"

definition digit :: "nat \<Rightarrow> string" where
  "digit n = [''0123456789'' ! n]"

text \<open>
  \<^verbatim>\<open>batch_size, channels, w, h = x.shape\<close>: Python's tuple unpacking, which raises
  ValueError unless the tuple has exactly four components. The message for too few
  components tells how many there are (0 to 3, one digit).
\<close>

fun unpack4 :: "nat list \<Rightarrow> (nat \<times> nat \<times> nat \<times> nat) io" where
  "unpack4 [a, b, c, d] = io_return (a, b, c, d)"
| "unpack4 (a # b # c # d # e # r) =
     io_raise (ValueError ''too many values to unpack (expected 4)'')"
| "unpack4 xs =
     io_raise (ValueError
       (''not enough values to unpack (expected 4, got '' @ digit (length xs) @ '')''))"

text \<open>\<^verbatim>\<open>BytesIO()\<close>: a new, empty stream positioned at 0.\<close>

definition BytesIO :: "nat io" where
  "BytesIO s = Inr (length (streams s), s\<lparr>streams := streams s @ [\<lparr>buf = [], pos = 0\<rparr>]\<rparr>)"

text \<open>
  The strides of a view, as torch computes them (\<^verbatim>\<open>computeStride\<close>), or none when the
  sizes asked for do not fit the sizes and strides of the tensor. The dimensions of the
  tensor are read from the innermost one outwards and gathered in chunks that lie in
  memory like one dimension: a chunk ends before a dimension of size other than 1 whose
  stride is not the number of elements of the chunk times the stride of its innermost
  dimension. \<open>fill_view\<close> is the inner loop: it hands the dimensions of the view, from the
  innermost one, to the chunk until they hold as many elements as the chunk
  (dimensions of size 1 are taken along), and the counts must then agree.
\<close>

fun fill_view :: "nat \<Rightarrow> nat \<Rightarrow> nat \<Rightarrow> nat list \<Rightarrow> nat list \<Rightarrow> nat \<times> nat list \<times> nat list" where
  "fill_view tensor_numel base view_numel [] newstride = (view_numel, [], newstride)"
| "fill_view tensor_numel base view_numel (n # ns) newstride =
     (if view_numel < tensor_numel \<or> n = 1
      then fill_view tensor_numel base (view_numel * n) ns ((view_numel * base) # newstride)
      else (view_numel, n # ns, newstride))"

fun chunks :: "nat \<Rightarrow> nat \<Rightarrow> (nat \<times> nat) list \<Rightarrow> nat list \<Rightarrow> nat list
    \<Rightarrow> (nat list \<times> nat list) option" where
  "chunks tensor_numel base [] news newstride = Some (news, newstride)"
| "chunks tensor_numel base ((n, k) # rest) news newstride =
     (let tensor_numel' = tensor_numel * n in
      if (case rest of [] \<Rightarrow> True | (n1, k1) # _ \<Rightarrow> n1 \<noteq> 1 \<and> k1 \<noteq> tensor_numel' * base)
      then (case fill_view tensor_numel' base 1 news newstride of
              (view_numel, news', newstride') \<Rightarrow>
                if view_numel \<noteq> tensor_numel' then None
                else (case rest of
                        [] \<Rightarrow> Some (news', newstride')
                      | (n1, k1) # _ \<Rightarrow> chunks 1 k1 rest news' newstride'))
      else chunks tensor_numel' base rest news newstride)"

definition computeStride :: "nat list \<Rightarrow> nat list \<Rightarrow> nat list \<Rightarrow> nat list option" where
  "computeStride oldshape oldstride newshape =
     (if oldshape = [] then Some (replicate (length newshape) 1)
      else if prod_list oldshape = 0 \<and> oldshape = newshape then Some oldstride
      else if prod_list oldshape = 0 then Some (contiguous_strides newshape)
      else (case chunks 1 (last oldstride) (rev (zip oldshape oldstride)) (rev newshape) [] of
              None \<Rightarrow> None
            | Some (news, newstride) \<Rightarrow> if news = [] then Some newstride else None))"

text \<open>The exception of \<^verbatim>\<open>view\<close> for sizes that do not fit the strides of the tensor.\<close>

definition incompatible_view :: error where
  "incompatible_view = RuntimeError
     (''view size is not compatible with input tensor's size and stride'' @
      '' (at least one dimension spans across two contiguous subspaces).'' @
      '' Use .reshape(...) instead.'')"

text \<open>
  \<^verbatim>\<open>t.view(sizes)\<close>: a tensor of the given sizes on the storage of \<open>t\<close>. RuntimeError
  when the sizes do not multiply to the number of elements of \<open>t\<close> (the message, which
  names the sizes and the number, is shortened here), and when they do not fit its
  strides.
\<close>

definition view :: "tensor \<Rightarrow> nat list \<Rightarrow> tensor io" where
  "view t sizes =
     (if prod_list sizes \<noteq> numel t
      then io_raise (RuntimeError ''shape is invalid for input size'')
      else case computeStride (shape t) (stride t) sizes of
             None \<Rightarrow> io_raise incompatible_view
           | Some ks \<Rightarrow> io_return (t\<lparr>shape := sizes, stride := ks\<rparr>))"

text \<open>
  \<^verbatim>\<open>transforms.ToPILImage()(pic)\<close> on a float tensor of rank 2, the only rank \<^verbatim>\<open>forward\<close>
  passes: \<^verbatim>\<open>pic.mul(255).byte()\<close>, then a single-channel image (mode L) with one image
  row per tensor row. Other ranks do not arise in \<^verbatim>\<open>forward\<close>; the model answers them
  with the ValueError the library has for a rank that is neither 2 nor 3.
\<close>

definition ToPILImage :: "(f32 \<Rightarrow> byte) \<Rightarrow> tensor \<Rightarrow> image io" where
  "ToPILImage und pic s =
     (case shape pic of
        [r, c] \<Rightarrow>
          Inr (\<lparr>mode = L, isize = (c, r),
                pixels = map (\<lambda>v. byte_cast und (mul255 v)) (contents s pic)\<rparr>, s)
      | _ \<Rightarrow> Inl (ValueError ''pic should be 2/3 dimensional''))"

text \<open>\<^verbatim>\<open>fp.write(bs)\<close> on a BytesIO: overwrite from the position on, and advance it.\<close>

definition stream_write :: "bytesio \<Rightarrow> byte list \<Rightarrow> bytesio" where
  "stream_write f bs =
     \<lparr>buf = take (pos f) (buf f @ replicate (pos f - length (buf f)) 0) @ bs
              @ drop (pos f + length bs) (buf f),
      pos = pos f + length bs\<rparr>"

text \<open>\<^verbatim>\<open>image.save(fp, fmt, quality=q)\<close>: encode, and write the bytes to the stream.\<close>

definition save :: "library \<Rightarrow> image \<Rightarrow> nat \<Rightarrow> string \<Rightarrow> nat \<Rightarrow> unit io" where
  "save lib im fp fmt quality s =
     (case encode lib fmt quality im of
        Inl e \<Rightarrow> Inl e
      | Inr bs \<Rightarrow> Inr ((), s\<lparr>streams := (streams s)[fp := stream_write (streams s ! fp) bs]\<rparr>))"

text \<open>\<^verbatim>\<open>fp.seek(n)\<close>: set the position, and return it.\<close>

definition seek :: "nat \<Rightarrow> nat \<Rightarrow> nat io" where
  "seek fp n s = Inr (n, s\<lparr>streams := (streams s)[fp := (streams s ! fp)\<lparr>pos := n\<rparr>]\<rparr>)"

text \<open>\<^verbatim>\<open>Image.open(fp)\<close>: decode what the stream holds from its position on.\<close>

definition Image_open :: "library \<Rightarrow> nat \<Rightarrow> image io" where
  "Image_open lib fp s =
     (let f = streams s ! fp in
      case decode lib (drop (pos f) (buf f)) of
        Inl e \<Rightarrow> Inl e
      | Inr im \<Rightarrow> Inr (im, s\<lparr>streams := (streams s)[fp := f\<lparr>pos := length (buf f)\<rparr>]\<rparr>))"

text \<open>PIL's name of a mode; \<^verbatim>\<open>ToTensor\<close> takes its length for the number of channels.\<close>

fun show_mode :: "mode \<Rightarrow> string" where
  "show_mode L = ''L''"
| "show_mode RGB = ''RGB''"
| "show_mode CMYK = ''CMYK''"

definition nchannel :: "mode \<Rightarrow> nat" where
  "nchannel m = length (show_mode m)"

text \<open>Interleaved samples (height, width, channel) put channel first.\<close>

definition hwc_to_chw :: "nat \<Rightarrow> nat \<Rightarrow> 'a list \<Rightarrow> 'a list" where
  "hwc_to_chw n hw bs = concat (map (\<lambda>c. map (\<lambda>i. bs ! (i * n + c)) [0..<hw]) [0..<n])"

text \<open>
  \<^verbatim>\<open>transforms.ToTensor()(pic)\<close> on an 8-bit image: the bytes of the image viewed as
  (height, width, channels), transposed to channel first, converted to float and
  divided by 255, in a new tensor.
\<close>

definition ToTensor :: "image \<Rightarrow> tensor io" where
  "ToTensor pic =
     (let n = nchannel (mode pic); wd = fst (isize pic); ht = snd (isize pic) in
      if length (pixels pic) \<noteq> ht * wd * n
      then io_raise (RuntimeError ''shape is invalid for input size'')
      else new_tensor [n, ht, wd] (map div255 (hwc_to_chw n (ht * wd) (pixels pic))))"

section \<open>BottleneckUnit\<close>

text \<open>The two static methods of the class, statement by statement.\<close>

definition forward :: "library \<Rightarrow> 'ctx \<Rightarrow> tensor \<Rightarrow> tensor io" where
  "forward lib ctx x =
     io_bind (zeros_like x) (\<lambda>result.
     io_bind (unpack4 (shape x)) (\<lambda>(batch_size, channels, w, h).
     io_bind BytesIO (\<lambda>outputIoStream.
     io_bind (view x [batch_size * channels, w * h]) (\<lambda>x2d.
     io_bind (ToPILImage (cast_undefined lib) x2d) (\<lambda>image.
     io_bind (save lib image outputIoStream ''JPEG'' 90) (\<lambda>_.
     io_bind (seek outputIoStream 0) (\<lambda>_.
     io_bind (Image_open lib outputIoStream) (\<lambda>decompressed.
     io_bind (ToTensor decompressed) (\<lambda>result.
     io_bind (view result [batch_size, channels, w, h]) (\<lambda>result.
     io_return result))))))))))"

definition backward :: "'ctx \<Rightarrow> tensor \<Rightarrow> tensor io" where
  "backward ctx grad_output = io_return grad_output"

section \<open>What a call leaves to be seen\<close>

text \<open>
  A tensor handed to a call is an object of the store, with one stride for each of its
  dimensions.
\<close>

definition in_store :: "world \<Rightarrow> tensor \<Rightarrow> bool" where
  "in_store s t \<longleftrightarrow> storage t < length (storages s) \<and> length (stride t) = length (shape t)"

text \<open>
  What the caller sees of a call: the exception, or the shape and the values of the
  returned tensor.
\<close>

definition observe :: "error + (tensor \<times> world) \<Rightarrow> error + (nat list \<times> f32 list)" where
  "observe r = (case r of Inl e \<Rightarrow> Inl e | Inr (y, s') \<Rightarrow> Inr (shape y, contents s' y))"

text \<open>The same, with no regard to which exception it is.\<close>

definition returned :: "error + (tensor \<times> world) \<Rightarrow> (nat list \<times> f32 list) option" where
  "returned r = (case r of Inl e \<Rightarrow> None | Inr (y, s') \<Rightarrow> Some (shape y, contents s' y))"

section \<open>A small lossy codec\<close>

text \<open>
  An instance of the library parameter on which the theorems below are exercised. Its
  codec accepts single-channel images of at least one pixel and of sides below 65536,
  writes the two sides in two bytes each, and drops the two low bits of every sample;
  its conversion gives 0 where C++ leaves it undefined.
\<close>

definition toy_encode :: "string \<Rightarrow> nat \<Rightarrow> image \<Rightarrow> error + byte list" where
  "toy_encode fmt quality im =
     (let wd = fst (isize im); ht = snd (isize im) in
      if fmt \<noteq> ''JPEG'' then Inl (ValueError ''unknown format'')
      else if mode im \<noteq> L \<or> wd = 0 \<or> ht = 0 \<or> 65536 \<le> wd \<or> 65536 \<le> ht
      then Inl (OSError ''cannot write image'')
      else Inr ([of_nat (wd div 256), of_nat (wd mod 256),
                 of_nat (ht div 256), of_nat (ht mod 256)]
                @ map (\<lambda>p. p AND 252) (pixels im)))"

definition toy_decode :: "byte list \<Rightarrow> error + image" where
  "toy_decode bs =
     (case bs of
        w1 # w0 # h1 # h0 # ps \<Rightarrow>
          Inr \<lparr>mode = L, isize = (256 * unat w1 + unat w0, 256 * unat h1 + unat h0),
               pixels = ps\<rparr>
      | _ \<Rightarrow> Inl (OSError ''cannot identify image file''))"

definition zero_cast :: "f32 \<Rightarrow> byte" where
  "zero_cast v = 0"

definition toy_library :: library where
  "toy_library = \<lparr>encode = toy_encode, decode = toy_decode, cast_undefined = zero_cast\<rparr>"

section \<open>The forward pass in the words of the specification\<close>

text \<open>
  The specification describes the forward pass as four steps on values, with no store
  and no strides: reshape the (batch, channels, width, height) input to batch*channels
  rows of width*height columns, taken as a single-channel image; encode it as JPEG at
  quality 90; decode the bytes to floats normalised to [0,1]; reshape to the original
  shape. The functions below follow these words on an array, which is a shape with its
  row-major values, and give nothing when a step fails. They are written on their own,
  without the functions of the model above, the arithmetic of floats apart.
\<close>

text \<open>
  Step 1: the 2-D arrangement as a single-channel image, one image row per row. The
  8-bit sample of a value is 255 times the value, as a float, without its fraction,
  modulo 256 (and what the platform gives where no 64-bit integer holds it).
\<close>

definition spec_sample :: "(f32 \<Rightarrow> byte) \<Rightarrow> f32 \<Rightarrow> byte" where
  "spec_sample und v =
     (case mul255 v of
        Fin r \<Rightarrow>
          if - (2 ^ 63) - 1 < r \<and> r < 2 ^ 63
          then of_int ((if r < 0 then - \<lfloor>- r\<rfloor> else \<lfloor>r\<rfloor>) mod 256)
          else und (Fin r)
      | w \<Rightarrow> und w)"

fun spec_image :: "(f32 \<Rightarrow> byte) \<Rightarrow> nat list \<times> f32 list \<Rightarrow> image option" where
  "spec_image und ([b, c, w, h], vs) =
     (if length vs = b * c * w * h
      then Some \<lparr>mode = L, isize = (w * h, b * c), pixels = map (spec_sample und) vs\<rparr>
      else None)"
| "spec_image und (shp, vs) = None"

text \<open>Step 2: JPEG at quality 90.\<close>

definition spec_encode :: "library \<Rightarrow> image \<Rightarrow> byte list option" where
  "spec_encode lib im = (case encode lib ''JPEG'' 90 im of Inl e \<Rightarrow> None | Inr bs \<Rightarrow> Some bs)"

text \<open>
  Step 3: the decoded samples as floats in [0,1], sample over 255, one channel after the
  other.
\<close>

definition spec_decode :: "library \<Rightarrow> byte list \<Rightarrow> f32 list option" where
  "spec_decode lib bs =
     (case decode lib bs of
        Inl e \<Rightarrow> None
      | Inr im \<Rightarrow>
          (let n = (case mode im of L \<Rightarrow> 1 | RGB \<Rightarrow> 3 | CMYK \<Rightarrow> 4);
               hw = fst (isize im) * snd (isize im) in
           if length (pixels im) = n * hw
           then Some (map (\<lambda>i. Fin (real (unat (pixels im ! ((i mod hw) * n + i div hw))) / 255))
                        [0..<n * hw])
           else None))"

text \<open>Step 4: the values in the original shape, when there are as many as it asks.\<close>

definition spec_reshape_back :: "nat list \<Rightarrow> f32 list \<Rightarrow> (nat list \<times> f32 list) option" where
  "spec_reshape_back shp vs = (if length vs = prod_list shp then Some (shp, vs) else None)"

definition forward_spec :: "library \<Rightarrow> nat list \<times> f32 list \<Rightarrow> (nat list \<times> f32 list) option" where
  "forward_spec lib a =
     Option.bind (spec_image (cast_undefined lib) a) (\<lambda>im.
     Option.bind (spec_encode lib im) (\<lambda>bs.
     Option.bind (spec_decode lib bs) (\<lambda>vs.
     spec_reshape_back (fst a) vs)))"

text \<open>Clamping into [0,1], as the specification words what the encode step does.\<close>

definition clamp01 :: "real \<Rightarrow> real" where
  "clamp01 v = max 0 (min 1 v)"

section \<open>Auxiliary functions\<close>

text \<open>
  The dimensions of a contiguous tensor from the innermost one outwards, each with its
  stride, and the strides that the unconditional run of the inner loop of
  \<open>computeStride\<close> gives; both serve the proofs about views of contiguous tensors.
\<close>

fun inner_pairs :: "nat \<Rightarrow> nat list \<Rightarrow> (nat \<times> nat) list" where
  "inner_pairs t [] = []"
| "inner_pairs t (n # ns) = (n, t) # inner_pairs (t * n) ns"

fun outer_strides :: "nat \<Rightarrow> nat list \<Rightarrow> nat list \<Rightarrow> nat list" where
  "outer_strides vn [] acc = acc"
| "outer_strides vn (n # ns) acc = outer_strides (vn * n) ns (vn # acc)"

text \<open>
  The places of the elements for dimensions given from the innermost one outwards, each
  with its stride; it serves the proof that a view holds the values of its tensor.
\<close>

fun roffs :: "(nat \<times> nat) list \<Rightarrow> nat list" where
  "roffs [] = [0]"
| "roffs ((n, k) # ps) = concat (map (\<lambda>j. map (\<lambda>i. j + i * k) [0..<n]) (roffs ps))"

section \<open>Auxiliary facts: floats\<close>

lemma rne_of_int: "rne (of_int k) = k"
  by (simp add: rne_def)

lemma exponent_search_ge: "- 126 \<le> exponent_search n a"
  by (induction n) auto

lemma exponent_search_le:
  "exponent_search n a = - 126 \<or> 2 powi (exponent_search n a) \<le> a"
  by (induction n) auto

lemma round_f32_fixed:
  assumes m: "\<bar>m\<bar> < 2 ^ 24" and e: "- 149 \<le> e" "e \<le> 104"
  shows "round_f32 (of_int m * 2 powi e) = Fin (of_int m * 2 powi e)"
proof -
  define x :: real where "x = of_int m * 2 powi e"
  define E where "E = exponent_search 253 \<bar>x\<bar>"
  have absx: "\<bar>x\<bar> = of_int \<bar>m\<bar> * 2 powi e"
    by (simp add: x_def abs_mult)
  have lt: "\<bar>x\<bar> < 2 powi (24 + e)"
  proof -
    have "real_of_int \<bar>m\<bar> < real_of_int (2 ^ 24)" using m by (simp only: of_int_less_iff)
    then have "real_of_int \<bar>m\<bar> < 2 ^ 24" by simp
    then have "of_int \<bar>m\<bar> * 2 powi e < (2 ^ 24 :: real) * 2 powi e"
      by (intro mult_strict_right_mono) simp_all
    then show ?thesis by (simp add: absx power_int_add)
  qed
  have Ee: "E - 23 \<le> e"
  proof (cases "E = - 126")
    case True
    then show ?thesis using e by simp
  next
    case False
    then have "2 powi E \<le> \<bar>x\<bar>"
      using exponent_search_le [of 253 "\<bar>x\<bar>"] by (simp add: E_def)
    with lt have less: "(2 :: real) powi E < 2 powi (24 + e)" by linarith
    have "E < 24 + e"
    proof (rule ccontr)
      assume "\<not> E < 24 + e"
      then have "(2 :: real) powi (24 + e) \<le> 2 powi E"
        by (intro power_int_increasing) simp_all
      with less show False by linarith
    qed
    then show ?thesis by simp
  qed
  define d where "d = nat (e - (E - 23))"
  have de: "e = (E - 23) + int d" using Ee by (simp add: d_def)
  have quot: "x / 2 powi (E - 23) = of_int (m * 2 ^ d)"
    by (simp add: x_def de power_int_add)
  have prod_eq: "of_int (m * 2 ^ d) * 2 powi (E - 23) = x"
    by (simp add: x_def de power_int_add)
  have big: "\<bar>x\<bar> < 2 powi 128"
  proof -
    have "(2 :: real) powi (24 + e) \<le> 2 powi 128"
      using e by (intro power_int_increasing) simp_all
    with lt show ?thesis by linarith
  qed
  have "round_f32 x = Fin x"
    using big unfolding round_f32_def Let_def E_def [symmetric] quot rne_of_int prod_eq
    by (auto simp: abs_less_iff)
  then show ?thesis by (simp add: x_def)
qed

lemma round_f32_int: "\<bar>m\<bar> < 2 ^ 24 \<Longrightarrow> round_f32 (of_int m) = Fin (of_int m)"
  using round_f32_fixed [of m 0] by simp

lemma round_f32_half: "\<bar>m\<bar> < 2 ^ 24 \<Longrightarrow> round_f32 (of_int m / 2) = Fin (of_int m / 2)"
  using round_f32_fixed [of m "- 1"] by (simp add: power_int_minus field_simps)

lemma f32_values:
  "round_f32 (765 / 2) = Fin (765 / 2)"
  "round_f32 (255 / 2) = Fin (255 / 2)"
  "round_f32 (- (255 / 2)) = Fin (- (255 / 2))"
  "round_f32 255 = Fin 255"
  "round_f32 126 = Fin 126"
  "round_f32 0 = Fin 0"
  using round_f32_half [of 765] round_f32_half [of 255] round_f32_half [of "- 255"]
    round_f32_int [of 255] round_f32_int [of 126] round_f32_int [of 0]
  by simp_all

section \<open>Auxiliary facts: contiguous tensors\<close>

lemma blocks_upt: "concat (map (\<lambda>i. map (\<lambda>j. i * p + j) [0..<p]) [0..<n]) = [0..<n * p]"
proof (induction n)
  case 0
  then show ?case by simp
next
  case (Suc n)
  have "map (\<lambda>j. n * p + j) [0..<p] = [n * p..<n * p + p]"
    using map_add_upt [of "n * p" p] by (simp add: add.commute)
  moreover have "[0..<n * p + p] = [0..<n * p] @ [n * p..<n * p + p]"
    by (rule upt_add_eq_append) simp
  ultimately show ?case using Suc by (simp add: add.commute)
qed

lemma prod_list_max: "prod_list ns \<noteq> 0 \<Longrightarrow> map (max (Suc 0)) ns = (ns :: nat list)"
  by (induction ns) (auto simp: max_def)

lemma offsets_contiguous: "offsets ns (contiguous_strides ns) = [0..<prod_list ns]"
proof (induction ns)
  case Nil
  then show ?case by simp
next
  case (Cons n ns)
  show ?case
  proof (cases "prod_list ns = 0")
    case True
    then show ?thesis using Cons by simp
  next
    case False
    then show ?thesis using Cons by (simp add: prod_list_max blocks_upt)
  qed
qed

section \<open>Auxiliary facts: views of contiguous tensors\<close>

lemma inner_pairs_append:
  "inner_pairs t (xs @ ys) = inner_pairs t xs @ inner_pairs (t * prod_list xs) ys"
  by (induction xs arbitrary: t) (simp_all add: mult.assoc)

lemma rev_zip_contiguous:
  "prod_list ns \<noteq> 0 \<Longrightarrow> rev (zip ns (contiguous_strides ns)) = inner_pairs 1 (rev ns)"
  by (induction ns) (auto simp: inner_pairs_append prod_list_max)

lemma chunks_inner:
  "ns \<noteq> [] \<Longrightarrow>
   chunks t 1 (inner_pairs t ns) news acc =
     (case fill_view (t * prod_list ns) 1 1 news acc of
        (vn, news', acc') \<Rightarrow> if vn \<noteq> t * prod_list ns then None else Some (news', acc'))"
proof (induction ns arbitrary: t)
  case Nil
  then show ?case by simp
next
  case (Cons n ns)
  show ?case
  proof (cases ns)
    case Nil
    then show ?thesis by (simp split: prod.splits)
  next
    case (Cons m ms)
    then have "chunks t 1 (inner_pairs t (n # ns)) news acc
               = chunks (t * n) 1 (inner_pairs (t * n) ns) news acc"
      by simp
    also have "\<dots> = (case fill_view (t * n * prod_list ns) 1 1 news acc of
        (vn, news', acc') \<Rightarrow> if vn \<noteq> t * n * prod_list ns then None else Some (news', acc'))"
      using Cons by (intro Cons.IH) simp
    finally show ?thesis by (simp add: mult.assoc)
  qed
qed

lemma fill_view_all:
  "0 < tn \<Longrightarrow> vn * prod_list ns = tn \<Longrightarrow>
   fill_view tn 1 vn ns acc = (tn, [], outer_strides vn ns acc)"
proof (induction ns arbitrary: vn acc)
  case Nil
  then show ?case by simp
next
  case (Cons n ns)
  define k where "k = n * prod_list ns"
  have tn: "vn * k = tn" using Cons.prems by (simp add: k_def)
  have "vn < tn \<or> n = 1"
  proof (cases "vn < tn")
    case False
    have "0 < k" using tn Cons.prems(1) by (cases k) auto
    then have "vn \<le> vn * k" by simp
    then have "vn = tn" using False tn by simp
    then have "k = 1" using tn Cons.prems(1) by simp
    then show ?thesis by (simp add: k_def)
  qed simp
  moreover have "fill_view tn 1 (vn * n) ns (vn # acc) = (tn, [], outer_strides (vn * n) ns (vn # acc))"
    using Cons.prems by (intro Cons.IH) (simp_all add: mult.assoc)
  ultimately show ?case by simp
qed

lemma outer_strides_append:
  "outer_strides vn (xs @ [x]) acc = (vn * prod_list xs) # outer_strides vn xs acc"
  by (induction xs arbitrary: vn acc) (simp_all add: mult.assoc)

lemma outer_strides_rev:
  "prod_list ns \<noteq> 0 \<Longrightarrow> outer_strides 1 (rev ns) [] = contiguous_strides ns"
  by (induction ns) (auto simp: outer_strides_append prod_list_max)

lemma length_contiguous [simp]: "length (contiguous_strides ns) = length ns"
  by (induction ns) simp_all

lemma last_contiguous: "ns \<noteq> [] \<Longrightarrow> last (contiguous_strides ns) = 1"
proof (induction ns)
  case Nil
  then show ?case by simp
next
  case (Cons n ns)
  show ?case
  proof (cases ns)
    case Nil
    then show ?thesis by simp
  next
    case (Cons m ms)
    then have "contiguous_strides ns \<noteq> []"
      using length_contiguous [of ns] by fastforce
    then show ?thesis using Cons Cons.IH by simp
  qed
qed

lemma computeStride_contiguous:
  assumes "old \<noteq> []" and "prod_list new = prod_list old"
  shows "computeStride old (contiguous_strides old) new = Some (contiguous_strides new)"
proof (cases "prod_list old = 0")
  case True
  then show ?thesis using assms by (simp add: computeStride_def)
next
  case False
  then have pos: "0 < prod_list old" by simp
  have "chunks 1 (last (contiguous_strides old)) (rev (zip old (contiguous_strides old))) (rev new) []
        = chunks 1 1 (inner_pairs 1 (rev old)) (rev new) []"
    using False assms(1) by (simp add: rev_zip_contiguous last_contiguous)
  also have "\<dots> = (case fill_view (prod_list old) 1 1 (rev new) [] of
        (vn, news', acc') \<Rightarrow> if vn \<noteq> prod_list old then None else Some (news', acc'))"
    using chunks_inner [of "rev old" 1 "rev new" "[]"] assms(1) by simp
  also have "fill_view (prod_list old) 1 1 (rev new) []
             = (prod_list old, [], outer_strides 1 (rev new) [])"
    using pos assms(2) by (intro fill_view_all) simp_all
  finally have "chunks 1 (last (contiguous_strides old))
                  (rev (zip old (contiguous_strides old))) (rev new) []
                = Some ([], outer_strides 1 (rev new) [])"
    by simp
  moreover have "outer_strides 1 (rev new) [] = contiguous_strides new"
    using False assms(2) by (intro outer_strides_rev) simp
  ultimately show ?thesis
    using False assms(1) by (simp add: computeStride_def)
qed

lemma view_contiguous:
  assumes "shape t \<noteq> []" and "stride t = contiguous_strides (shape t)"
    and "prod_list sizes = numel t"
  shows "view t sizes = io_return (t\<lparr>shape := sizes, stride := contiguous_strides sizes\<rparr>)"
  using assms computeStride_contiguous [of "shape t" sizes]
  by (simp add: view_def numel_def)

section \<open>Auxiliary facts: a view holds the values of its tensor\<close>

lemma concat_map_concat:
  "concat (map f (concat xss)) = concat (map (\<lambda>xs. concat (map f xs)) xss)"
  by (induction xss) simp_all

lemma concat_concat: "concat (concat xss) = concat (map concat xss)"
  by (induction xss) simp_all

lemma roffs_append:
  "roffs (ps @ qs) = concat (map (\<lambda>j. map (\<lambda>i. j + i) (roffs ps)) (roffs qs))"
proof (induction ps)
  case Nil
  then show ?case by simp
next
  case (Cons p ps)
  obtain n k where p: "p = (n, k)" by (cases p)
  show ?case
    by (simp add: p Cons map_concat concat_map_concat concat_concat comp_def add.assoc)
qed

lemma offsets_roffs:
  "length ks = length ns \<Longrightarrow> offsets ns ks = roffs (rev (zip ns ks))"
proof (induction ns arbitrary: ks)
  case Nil
  then show ?case by simp
next
  case (Cons n ns)
  then obtain k ks' where ks: "ks = k # ks'" and len: "length ks' = length ns"
    by (cases ks) auto
  have "offsets ns ks' = roffs (rev (zip ns ks'))" using len by (rule Cons.IH)
  then show ?case
    by (simp add: ks roffs_append comp_def add.commute)
qed

text \<open>A chunk lies in memory like one dimension.\<close>

lemma roffs_merge:
  assumes "roffs ps = map (\<lambda>i. i * b) [0..<t]"
  shows "roffs (ps @ [(n, t * b)]) = map (\<lambda>i. i * b) [0..<t * n]"
proof -
  have "roffs (ps @ [(n, t * b)])
        = concat (map (\<lambda>i. map (\<lambda>j. i * (t * b) + j * b) [0..<t]) [0..<n])"
    by (simp add: roffs_append assms comp_def)
  also have "\<dots> = map (\<lambda>i. i * b) (concat (map (\<lambda>i. map (\<lambda>j. i * t + j) [0..<t]) [0..<n]))"
    by (simp add: map_concat comp_def algebra_simps)
  also have "\<dots> = map (\<lambda>i. i * b) [0..<n * t]"
    by (simp only: blocks_upt)
  finally show ?thesis by (simp add: mult.commute)
qed

lemma roffs_unit: "roffs (ps @ [(Suc 0, k)]) = roffs ps"
proof -
  have "map ((+) 0) (roffs ps) = roffs ps" by (rule map_idI) simp
  then show ?thesis by (simp add: roffs_append)
qed

lemma roffs_step:
  assumes "roffs ps = map (\<lambda>i. i * b) [0..<t]" and "n = 1 \<or> k = t * b"
  shows "roffs (ps @ [(n, k)]) = map (\<lambda>i. i * b) [0..<t * n]"
proof (cases "n = 1")
  case True
  then show ?thesis using assms(1) by (simp add: roffs_unit)
next
  case False
  then show ?thesis using assms roffs_merge [of ps b t n] by simp
qed

lemma fill_view_sound:
  assumes "fill_view T b vn news acc = (T, news', acc')"
  shows "\<exists>consumed ks. news = consumed @ news' \<and> acc' = rev ks @ acc
           \<and> length ks = length consumed
           \<and> (\<forall>D. roffs D = map (\<lambda>i. i * b) [0..<vn]
                  \<longrightarrow> roffs (D @ zip consumed ks) = map (\<lambda>i. i * b) [0..<T])"
  using assms
proof (induction news arbitrary: vn acc)
  case Nil
  then show ?case by auto
next
  case (Cons n ns)
  show ?case
  proof (cases "vn < T \<or> n = 1")
    case True
    then have "fill_view T b (vn * n) ns ((vn * b) # acc) = (T, news', acc')"
      using Cons.prems by simp
    from Cons.IH [OF this] obtain consumed ks where
      c: "ns = consumed @ news'" "acc' = rev ks @ (vn * b) # acc" "length ks = length consumed"
      and r: "\<And>D. roffs D = map (\<lambda>i. i * b) [0..<vn * n]
                \<Longrightarrow> roffs (D @ zip consumed ks) = map (\<lambda>i. i * b) [0..<T]"
      by blast
    have "roffs (D @ zip (n # consumed) ((vn * b) # ks)) = map (\<lambda>i. i * b) [0..<T]"
      if "roffs D = map (\<lambda>i. i * b) [0..<vn]" for D
    proof -
      have "roffs (D @ [(n, vn * b)]) = map (\<lambda>i. i * b) [0..<vn * n]"
        using that by (rule roffs_merge)
      from r [OF this] show ?thesis by simp
    qed
    then have "n # ns = (n # consumed) @ news' \<and> acc' = rev ((vn * b) # ks) @ acc
        \<and> length ((vn * b) # ks) = length (n # consumed)
        \<and> (\<forall>D. roffs D = map (\<lambda>i. i * b) [0..<vn]
              \<longrightarrow> roffs (D @ zip (n # consumed) ((vn * b) # ks)) = map (\<lambda>i. i * b) [0..<T])"
      using c by simp
    then show ?thesis by blast
  next
    case False
    then have "vn = T" "news' = n # ns" "acc' = acc" using Cons.prems by auto
    then have "n # ns = [] @ news' \<and> acc' = rev [] @ acc \<and> length ([] :: nat list) = length ([] :: nat list)
        \<and> (\<forall>D. roffs D = map (\<lambda>i. i * b) [0..<vn]
              \<longrightarrow> roffs (D @ zip [] []) = map (\<lambda>i. i * b) [0..<T])"
      by simp
    then show ?thesis by blast
  qed
qed

lemma fill_view_chunk:
  assumes "fill_view T b 1 news acc = (T, news', acc')"
  obtains consumed ks where "news = consumed @ news'" "acc' = rev ks @ acc"
    "length ks = length consumed" "roffs (zip consumed ks) = map (\<lambda>i. i * b) [0..<T]"
proof -
  from fill_view_sound [OF assms] obtain consumed ks where
    c: "news = consumed @ news'" "acc' = rev ks @ acc" "length ks = length consumed"
    and r: "\<And>D. roffs D = map (\<lambda>i. i * b) [0..<1]
              \<Longrightarrow> roffs (D @ zip consumed ks) = map (\<lambda>i. i * b) [0..<T]"
    by blast
  have "roffs ([] @ zip consumed ks) = map (\<lambda>i. i * b) [0..<T]"
    by (rule r) simp
  with c show thesis by (intro that) simp_all
qed

lemma chunks_last:
  "chunks tn b [(n, k)] news acc =
     (case fill_view (tn * n) b 1 news acc of
        (vn, news', acc') \<Rightarrow> if vn \<noteq> tn * n then None else Some (news', acc'))"
  by (simp add: Let_def split: prod.splits)

lemma chunks_boundary:
  "n1 \<noteq> 1 \<and> k1 \<noteq> tn * n * b \<Longrightarrow>
   chunks tn b ((n, k) # (n1, k1) # rest) news acc =
     (case fill_view (tn * n) b 1 news acc of
        (vn, news', acc') \<Rightarrow>
          if vn \<noteq> tn * n then None else chunks 1 k1 ((n1, k1) # rest) news' acc')"
  by (simp add: Let_def split: prod.splits)

lemma chunks_merge:
  "\<not> (n1 \<noteq> 1 \<and> k1 \<noteq> tn * n * b) \<Longrightarrow>
   chunks tn b ((n, k) # (n1, k1) # rest) news acc = chunks (tn * n) b ((n1, k1) # rest) news acc"
  by (auto simp: Let_def)

lemma chunks_sound:
  assumes "chunks tn b P news acc = Some (news', acc')" and "P \<noteq> []"
    and "fst (hd P) = 1 \<or> snd (hd P) = tn * b"
  shows "\<exists>consumed ks. news = consumed @ news' \<and> acc' = rev ks @ acc
           \<and> length ks = length consumed
           \<and> (\<forall>D. roffs D = map (\<lambda>i. i * b) [0..<tn]
                  \<longrightarrow> roffs (D @ P) = roffs (zip consumed ks))"
  using assms
proof (induction P arbitrary: tn b news acc)
  case Nil
  then show ?case by simp
next
  case (Cons p rest)
  obtain n k where p: "p = (n, k)" by (cases p)
  have hd: "n = 1 \<or> k = tn * b" using Cons.prems(3) by (simp add: p)
  have step: "roffs (D @ [(n, k)]) = map (\<lambda>i. i * b) [0..<tn * n]"
    if "roffs D = map (\<lambda>i. i * b) [0..<tn]" for D
    using that hd by (rule roffs_step)
  show ?case
  proof (cases rest)
    case Nil
    obtain vn n1 a1 where f: "fill_view (tn * n) b 1 news acc = (vn, n1, a1)"
      by (cases "fill_view (tn * n) b 1 news acc") auto
    have "(if vn \<noteq> tn * n then None else Some (n1, a1)) = Some (news', acc')"
      using Cons.prems(1) unfolding p Nil chunks_last f by simp
    then have vn: "vn = tn * n" and res: "n1 = news'" "a1 = acc'"
      by (auto split: if_splits)
    from f [unfolded vn res] obtain consumed ks where
      c: "news = consumed @ news'" "acc' = rev ks @ acc" "length ks = length consumed"
      and r: "roffs (zip consumed ks) = map (\<lambda>i. i * b) [0..<tn * n]"
      by (rule fill_view_chunk)
    have "\<forall>D. roffs D = map (\<lambda>i. i * b) [0..<tn] \<longrightarrow> roffs (D @ p # rest) = roffs (zip consumed ks)"
      using step by (simp add: p Nil r)
    with c show ?thesis by blast
  next
    case (Cons q rest')
    obtain n1 k1 where q: "q = (n1, k1)" by (cases q)
    show ?thesis
    proof (cases "n1 \<noteq> 1 \<and> k1 \<noteq> tn * n * b")
      case True
      obtain vn nA aA where f: "fill_view (tn * n) b 1 news acc = (vn, nA, aA)"
        by (cases "fill_view (tn * n) b 1 news acc") auto
      have "(if vn \<noteq> tn * n then None else chunks 1 k1 rest nA aA) = Some (news', acc')"
        using Cons.prems(1) unfolding p Cons q chunks_boundary [OF True] f by simp
      then have vn: "vn = tn * n" and rec: "chunks 1 k1 rest nA aA = Some (news', acc')"
        by (auto split: if_splits)
      from f [unfolded vn] obtain cA ksA where
        cA: "news = cA @ nA" "aA = rev ksA @ acc" "length ksA = length cA"
        and rA: "roffs (zip cA ksA) = map (\<lambda>i. i * b) [0..<tn * n]"
        by (rule fill_view_chunk)
      have "\<exists>consumed ks. nA = consumed @ news' \<and> acc' = rev ks @ aA
           \<and> length ks = length consumed
           \<and> (\<forall>D. roffs D = map (\<lambda>i. i * k1) [0..<1]
                  \<longrightarrow> roffs (D @ rest) = roffs (zip consumed ks))"
        using rec by (rule Cons.IH) (simp_all add: Cons q)
      then obtain cB ksB where
        cB: "nA = cB @ news'" "acc' = rev ksB @ aA" "length ksB = length cB"
        and rB: "\<And>D. roffs D = map (\<lambda>i. i * k1) [0..<1] \<Longrightarrow> roffs (D @ rest) = roffs (zip cB ksB)"
        by blast
      have rest: "roffs rest = roffs (zip cB ksB)"
        using rB [of "[]"] by simp
      have "roffs (D @ p # rest) = roffs (zip (cA @ cB) (ksA @ ksB))"
        if "roffs D = map (\<lambda>i. i * b) [0..<tn]" for D
      proof -
        have "roffs (D @ p # rest) = roffs ((D @ [(n, k)]) @ rest)" by (simp add: p)
        also have "\<dots> = roffs (zip cA ksA @ zip cB ksB)"
          unfolding roffs_append [of "D @ [(n, k)]"] roffs_append [of "zip cA ksA"]
          by (simp only: step [OF that] rA rest)
        finally show ?thesis using cA(3) by simp
      qed
      then have "news = (cA @ cB) @ news' \<and> acc' = rev (ksA @ ksB) @ acc
           \<and> length (ksA @ ksB) = length (cA @ cB)
           \<and> (\<forall>D. roffs D = map (\<lambda>i. i * b) [0..<tn]
                  \<longrightarrow> roffs (D @ p # rest) = roffs (zip (cA @ cB) (ksA @ ksB)))"
        using cA cB by simp
      then show ?thesis by blast
    next
      case False
      have rec: "chunks (tn * n) b rest news acc = Some (news', acc')"
        using Cons.prems(1) unfolding p Cons q chunks_merge [OF False] .
      have "\<exists>consumed ks. news = consumed @ news' \<and> acc' = rev ks @ acc
           \<and> length ks = length consumed
           \<and> (\<forall>D. roffs D = map (\<lambda>i. i * b) [0..<tn * n]
                  \<longrightarrow> roffs (D @ rest) = roffs (zip consumed ks))"
        using rec False by (intro Cons.IH) (auto simp: Cons q)
      then obtain consumed ks where
        c: "news = consumed @ news'" "acc' = rev ks @ acc" "length ks = length consumed"
        and r: "\<And>D. roffs D = map (\<lambda>i. i * b) [0..<tn * n] \<Longrightarrow> roffs (D @ rest) = roffs (zip consumed ks)"
        by blast
      have "roffs (D @ p # rest) = roffs (zip consumed ks)"
        if "roffs D = map (\<lambda>i. i * b) [0..<tn]" for D
        using r [OF step [OF that]] by (simp add: p)
      with c show ?thesis by blast
    qed
  qed
qed

lemma offsets_zero:
  "length ks = length ns \<Longrightarrow> prod_list ns = 0 \<Longrightarrow> offsets ns ks = []"
proof (induction ns arbitrary: ks)
  case Nil
  then show ?case by simp
next
  case (Cons n ns)
  then obtain k ks' where ks: "ks = k # ks'" and len: "length ks' = length ns"
    by (cases ks) auto
  show ?case
  proof (cases "n = 0")
    case True
    then show ?thesis by (simp add: ks)
  next
    case False
    then have "offsets ns ks' = []" using Cons.prems len by (intro Cons.IH) simp_all
    then show ?thesis by (simp add: ks)
  qed
qed

lemma offsets_ones:
  "prod_list ns = Suc 0 \<Longrightarrow> offsets ns (replicate (length ns) (Suc 0)) = [0]"
  by (induction ns) simp_all

lemma computeStride_sound:
  assumes "computeStride old ostr new = Some nstr" and "length ostr = length old"
    and "prod_list new = prod_list old"
  shows "length nstr = length new \<and> offsets new nstr = offsets old ostr"
proof -
  consider (empty) "old = []" | (same) "old \<noteq> []" "prod_list old = 0" "old = new"
    | (zero) "old \<noteq> []" "prod_list old = 0" "old \<noteq> new"
    | (chunked) "old \<noteq> []" "prod_list old \<noteq> 0"
    by blast
  then show ?thesis
  proof cases
    case empty
    then show ?thesis using assms by (auto simp: computeStride_def offsets_ones)
  next
    case same
    have "computeStride old ostr old = Some ostr"
      using same(1,2) by (simp add: computeStride_def)
    then have "nstr = ostr" using assms(1) same(3) by simp
    then show ?thesis using assms(2) same(3) by simp
  next
    case zero
    then have "nstr = contiguous_strides new" using assms(1) by (simp add: computeStride_def)
    then show ?thesis using zero assms(2,3) by (simp add: offsets_contiguous offsets_zero)
  next
    case chunked
    let ?P = "rev (zip old ostr)"
    have run: "chunks 1 (last ostr) ?P (rev new) [] = Some ([], nstr)"
      using assms(1) chunked by (auto simp: computeStride_def split: option.splits if_splits)
    have ne: "?P \<noteq> []" using chunked(1) assms(2) by (cases old; cases ostr) auto
    have "hd ?P = (last old, last ostr)"
      using chunked(1) assms(2) ne
      by (simp add: hd_rev last_zip)
    then have hd: "fst (hd ?P) = 1 \<or> snd (hd ?P) = 1 * last ostr" by simp
    from chunks_sound [OF run ne hd] obtain consumed ks where
      c: "rev new = consumed @ []" "nstr = rev ks @ []" "length ks = length consumed"
      and r: "\<And>D. roffs D = map (\<lambda>i. i * last ostr) [0..<1] \<Longrightarrow> roffs (D @ ?P) = roffs (zip consumed ks)"
      by blast
    have len: "length nstr = length new"
      using c by (metis append_Nil2 length_rev)
    have "roffs ?P = roffs (zip consumed ks)" using r [of "[]"] by simp
    also have "zip consumed ks = rev (zip new nstr)"
      using c len by (simp add: zip_rev [symmetric])
    finally show ?thesis
      using len assms(2) by (simp add: offsets_roffs)
  qed
qed

lemma contents_view:
  assumes "computeStride (shape t) (stride t) sizes = Some ks"
    and "length (stride t) = length (shape t)" and "prod_list sizes = numel t"
    and "storages s' ! storage t = storages s ! storage t"
  shows "contents s' (t\<lparr>shape := sizes, stride := ks\<rparr>) = contents s t"
  using computeStride_sound [OF assms(1,2)] assms(3,4)
  by (simp add: contents_def element_def numel_def fun_eq_iff)

section \<open>Auxiliary facts: the forward pass\<close>

lemmas forward_defs = forward_def io_bind_def io_return_def io_raise_def zeros_like_def
  new_tensor_def BytesIO_def numel_def ToPILImage_def save_def
  stream_write_def seek_def Image_open_def ToTensor_def Let_def

lemma unpack4_short:
  "length xs < 4 \<Longrightarrow>
   unpack4 xs = io_raise (ValueError
     (''not enough values to unpack (expected 4, got '' @ digit (length xs) @ '')''))"
  by (induction xs rule: unpack4.induct) simp_all

lemma unpack4_long:
  "4 < length xs \<Longrightarrow> unpack4 xs = io_raise (ValueError ''too many values to unpack (expected 4)'')"
  by (induction xs rule: unpack4.induct) simp_all

lemma length4E:
  assumes "length xs = 4"
  obtains a b c d where "xs = [a, b, c, d]"
  using assms by (auto simp: length_Suc_conv numeral_eq_Suc)

lemma forward_short:
  "length (shape x) < 4 \<Longrightarrow>
   forward lib ctx x s = Inl (ValueError
     (''not enough values to unpack (expected 4, got '' @ digit (length (shape x)) @ '')''))"
  by (simp add: forward_def io_bind_def zeros_like_def new_tensor_def io_return_def
      unpack4_short io_raise_def)

lemma forward_long:
  "4 < length (shape x) \<Longrightarrow>
   forward lib ctx x s = Inl (ValueError ''too many values to unpack (expected 4)'')"
  by (simp add: forward_def io_bind_def zeros_like_def new_tensor_def io_return_def
      unpack4_long io_raise_def)

lemma hwc_to_chw_one: "hw = length bs \<Longrightarrow> hwc_to_chw (Suc 0) hw bs = bs"
  by (simp add: hwc_to_chw_def map_nth)

lemma length_hwc_to_chw: "length (hwc_to_chw n hw bs) = n * hw"
  by (simp add: hwc_to_chw_def length_concat comp_def sum_list_triv)

text \<open>The tensor that \<^verbatim>\<open>ToTensor\<close> makes, seen through the final view.\<close>

lemma view_new:
  assumes "prod_list sizes = prod_list shp" and "shp \<noteq> []"
  shows "view \<lparr>storage = a, offset = 0, shape = shp, stride = contiguous_strides shp\<rparr> sizes
         = io_return \<lparr>storage = a, offset = 0, shape = sizes, stride = contiguous_strides sizes\<rparr>"
  using view_contiguous [of "\<lparr>storage = a, offset = 0, shape = shp, stride = contiguous_strides shp\<rparr>" sizes]
    assms by (simp add: numel_def)

lemma forward_4d_raw:
  assumes "shape x = [b, c, w, h]"
  shows "forward lib ctx x s =
    (case computeStride [b, c, w, h] (stride x) [b * c, w * h] of
       None \<Rightarrow> Inl incompatible_view
     | Some ks \<Rightarrow>
    (case encode lib ''JPEG'' 90
            \<lparr>mode = L, isize = (w * h, b * c),
             pixels = map (\<lambda>v. byte_cast (cast_undefined lib) (mul255 v))
                        (contents
                           \<lparr>storages = storages s @ [replicate (b * c * w * h) (Fin 0)],
                            streams = streams s @ [\<lparr>buf = [], pos = 0\<rparr>]\<rparr>
                           (x\<lparr>shape := [b * c, w * h], stride := ks\<rparr>))\<rparr> of
       Inl e \<Rightarrow> Inl e
     | Inr bs \<Rightarrow>
        (case decode lib bs of
           Inl e \<Rightarrow> Inl e
         | Inr im \<Rightarrow>
            if length (pixels im) \<noteq> snd (isize im) * fst (isize im) * nchannel (mode im)
            then Inl (RuntimeError ''shape is invalid for input size'')
            else if b * c * w * h \<noteq> nchannel (mode im) * snd (isize im) * fst (isize im)
            then Inl (RuntimeError ''shape is invalid for input size'')
            else Inr (\<lparr>storage = Suc (length (storages s)), offset = 0, shape = [b, c, w, h],
                       stride = contiguous_strides [b, c, w, h]\<rparr>,
                      \<lparr>storages = storages s @
                          [replicate (b * c * w * h) (Fin 0),
                           map div255
                             (hwc_to_chw (nchannel (mode im)) (snd (isize im) * fst (isize im)) (pixels im))],
                       streams = streams s @ [\<lparr>buf = bs, pos = length bs\<rparr>]\<rparr>))))"
proof (cases "computeStride [b, c, w, h] (stride x) [b * c, w * h]")
  case None
  then show ?thesis using assms
    by (cases s) (simp add: forward_defs view_def mult.assoc)
next
  case (Some ks)
  have v: "view \<lparr>storage = a, offset = 0, shape = [n, ht, wd], stride = contiguous_strides [n, ht, wd]\<rparr> [b, c, w, h] s0
           = (if b * c * w * h \<noteq> n * ht * wd
              then Inl (RuntimeError ''shape is invalid for input size'')
              else Inr (\<lparr>storage = a, offset = 0, shape = [b, c, w, h],
                         stride = contiguous_strides [b, c, w, h]\<rparr>, s0))" for a n ht wd s0
  proof (cases "b * c * w * h = n * ht * wd")
    case True
    then have "prod_list [b, c, w, h] = prod_list [n, ht, wd]" by (simp add: mult.assoc)
    from view_new [OF this] True show ?thesis by (simp add: io_return_def)
  next
    case False
    then show ?thesis by (simp add: view_def numel_def io_raise_def mult.assoc)
  qed
  show ?thesis using assms Some
    by (cases s) (simp add: forward_defs view_def [of x] v mult.assoc
        del: contiguous_strides.simps split: sum.splits)
qed

lemma length_offsets: "length ks = length ns \<Longrightarrow> length (offsets ns ks) = prod_list ns"
proof (induction ns arbitrary: ks)
  case Nil
  then show ?case by simp
next
  case (Cons n ns)
  then obtain k ks' where ks: "ks = k # ks'" and len: "length ks' = length ns"
    by (cases ks) auto
  have "length (offsets ns ks') = prod_list ns" using len by (rule Cons.IH)
  then show ?case by (simp add: ks length_concat comp_def sum_list_triv)
qed

lemma length_contents: "length (stride t) = length (shape t) \<Longrightarrow> length (contents s t) = numel t"
  by (simp add: contents_def length_offsets numel_def)

lemma contents_store:
  "storages s' ! storage t = storages s ! storage t \<Longrightarrow> contents s' t = contents s t"
  by (simp add: contents_def element_def fun_eq_iff)

lemma contents_new:
  assumes "length vs = prod_list sizes" and "storages s ! a = vs"
  shows "contents s \<lparr>storage = a, offset = 0, shape = sizes, stride = contiguous_strides sizes\<rparr> = vs"
proof -
  have "contents s \<lparr>storage = a, offset = 0, shape = sizes, stride = contiguous_strides sizes\<rparr>
        = map (\<lambda>j. vs ! j) [0..<length vs]"
    using assms by (simp add: contents_def offsets_contiguous element_def fun_eq_iff)
  then show ?thesis by (simp add: map_nth)
qed

lemma contents_result:
  "length vs = prod_list sizes \<Longrightarrow>
   contents \<lparr>storages = A @ [z, vs], streams = B\<rparr>
     \<lparr>storage = Suc (length A), offset = 0, shape = sizes, stride = contiguous_strides sizes\<rparr> = vs"
  by (rule contents_new) (simp_all add: nth_append)

text \<open>The call on a 4-dimensional tensor of the store, in closed form.\<close>

lemma forward_4d:
  assumes "shape x = [b, c, w, h]" and "in_store s x"
  shows "forward lib ctx x s =
    (case computeStride [b, c, w, h] (stride x) [b * c, w * h] of
       None \<Rightarrow> Inl incompatible_view
     | Some ks \<Rightarrow>
    (case encode lib ''JPEG'' 90
            \<lparr>mode = L, isize = (w * h, b * c),
             pixels = map (\<lambda>v. byte_cast (cast_undefined lib) (mul255 v)) (contents s x)\<rparr> of
       Inl e \<Rightarrow> Inl e
     | Inr bs \<Rightarrow>
        (case decode lib bs of
           Inl e \<Rightarrow> Inl e
         | Inr im \<Rightarrow>
            if length (pixels im) \<noteq> snd (isize im) * fst (isize im) * nchannel (mode im)
            then Inl (RuntimeError ''shape is invalid for input size'')
            else if b * c * w * h \<noteq> nchannel (mode im) * snd (isize im) * fst (isize im)
            then Inl (RuntimeError ''shape is invalid for input size'')
            else Inr (\<lparr>storage = Suc (length (storages s)), offset = 0, shape = [b, c, w, h],
                       stride = contiguous_strides [b, c, w, h]\<rparr>,
                      \<lparr>storages = storages s @
                          [replicate (b * c * w * h) (Fin 0),
                           map div255
                             (hwc_to_chw (nchannel (mode im)) (snd (isize im) * fst (isize im)) (pixels im))],
                       streams = streams s @ [\<lparr>buf = bs, pos = length bs\<rparr>]\<rparr>))))"
proof (cases "computeStride [b, c, w, h] (stride x) [b * c, w * h]")
  case None
  then show ?thesis unfolding forward_4d_raw [OF assms(1)] by simp
next
  case (Some ks)
  have "contents \<lparr>storages = storages s @ [replicate (b * c * w * h) (Fin 0)],
                  streams = streams s @ [\<lparr>buf = [], pos = 0\<rparr>]\<rparr>
          (x\<lparr>shape := [b * c, w * h], stride := ks\<rparr>) = contents s x"
    using Some assms by (intro contents_view) (simp_all add: in_store_def numel_def nth_append)
  then show ?thesis unfolding forward_4d_raw [OF assms(1)] Some by simp
qed

text \<open>A successful call, taken apart.\<close>

lemma forward_InrE:
  assumes "forward lib ctx x s = Inr (y, s')"
  obtains b c w h bs and im :: image where
    "shape x = [b, c, w, h]"
    "computeStride [b, c, w, h] (stride x) [b * c, w * h] \<noteq> None"
    "decode lib bs = Inr im"
    "length (pixels im) = snd (isize im) * fst (isize im) * nchannel (mode im)"
    "b * c * w * h = nchannel (mode im) * snd (isize im) * fst (isize im)"
    "y = \<lparr>storage = Suc (length (storages s)), offset = 0, shape = [b, c, w, h],
          stride = contiguous_strides [b, c, w, h]\<rparr>"
    "s' = \<lparr>storages = storages s @
              [replicate (b * c * w * h) (Fin 0),
               map div255
                 (hwc_to_chw (nchannel (mode im)) (snd (isize im) * fst (isize im)) (pixels im))],
           streams = streams s @ [\<lparr>buf = bs, pos = length bs\<rparr>]\<rparr>"
proof -
  have "length (shape x) = 4"
  proof (rule ccontr)
    assume "length (shape x) \<noteq> 4"
    then consider "length (shape x) < 4" | "4 < length (shape x)" by linarith
    then show False using assms by cases (simp_all add: forward_short forward_long)
  qed
  then obtain b c w h where shp: "shape x = [b, c, w, h]" by (rule length4E)
  show thesis
    using assms that [OF shp] unfolding forward_4d_raw [OF shp]
    by (auto split: sum.splits if_splits option.splits)
qed

lemma forward_contents:
  assumes "forward lib ctx x s = Inr (y, s')"
  obtains im :: image where
    "length (pixels im) = snd (isize im) * fst (isize im) * nchannel (mode im)"
    "contents s' y = map div255
       (hwc_to_chw (nchannel (mode im)) (snd (isize im) * fst (isize im)) (pixels im))"
proof -
  from assms obtain b c w h bs and im :: image where
    len: "length (pixels im) = snd (isize im) * fst (isize im) * nchannel (mode im)"
    and n: "b * c * w * h = nchannel (mode im) * snd (isize im) * fst (isize im)"
    and y: "y = \<lparr>storage = Suc (length (storages s)), offset = 0, shape = [b, c, w, h],
          stride = contiguous_strides [b, c, w, h]\<rparr>"
    and s': "s' = \<lparr>storages = storages s @
              [replicate (b * c * w * h) (Fin 0),
               map div255
                 (hwc_to_chw (nchannel (mode im)) (snd (isize im) * fst (isize im)) (pixels im))],
           streams = streams s @ [\<lparr>buf = bs, pos = length bs\<rparr>]\<rparr>"
    by (rule forward_InrE)
  have "contents s' y = map div255
       (hwc_to_chw (nchannel (mode im)) (snd (isize im) * fst (isize im)) (pixels im))"
    unfolding y s'
    using n by (intro contents_result) (simp add: length_hwc_to_chw mult.assoc)
  with len show thesis by (rule that)
qed

lemma forward_levels:
  assumes "forward lib ctx x s = Inr (y, s')"
  shows "set (contents s' y) \<subseteq> (\<lambda>k. Fin (real k / 255)) ` {0..255}"
proof -
  from assms obtain im :: image where
    c: "contents s' y = map div255
       (hwc_to_chw (nchannel (mode im)) (snd (isize im) * fst (isize im)) (pixels im))"
    by (rule forward_contents)
  show ?thesis
  proof
    fix v assume "v \<in> set (contents s' y)"
    then obtain p :: byte where v: "v = Fin (real (unat p) / 255)" by (auto simp: c div255_def)
    have "unat p < 256" using unsigned_less [of p] by simp
    then have "unat p \<in> {0..255}" by simp
    then show "v \<in> (\<lambda>k. Fin (real k / 255)) ` {0..255}" unfolding v by (rule imageI)
  qed
qed

lemma forward_cases:
  obtains (short) "length (shape x) < 4" | (long) "4 < length (shape x)"
  | (four) b c w h where "shape x = [b, c, w, h]"
proof -
  consider "length (shape x) < 4" | "4 < length (shape x)" | "length (shape x) = 4"
    by linarith
  then show thesis
  proof cases
    case 3
    then obtain b c w h where "shape x = [b, c, w, h]" by (rule length4E)
    then show thesis by (rule four)
  qed (rule short, assumption, rule long, assumption)
qed

lemma observe_forward_4d:
  assumes "shape x = [b, c, w, h]" and "in_store s x"
  shows "observe (forward lib ctx x s) =
    (case computeStride [b, c, w, h] (stride x) [b * c, w * h] of
       None \<Rightarrow> Inl incompatible_view
     | Some ks \<Rightarrow>
    (case encode lib ''JPEG'' 90
            \<lparr>mode = L, isize = (w * h, b * c),
             pixels = map (\<lambda>v. byte_cast (cast_undefined lib) (mul255 v)) (contents s x)\<rparr> of
       Inl e \<Rightarrow> Inl e
     | Inr bs \<Rightarrow>
        (case decode lib bs of
           Inl e \<Rightarrow> Inl e
         | Inr im \<Rightarrow>
            if length (pixels im) \<noteq> snd (isize im) * fst (isize im) * nchannel (mode im)
            then Inl (RuntimeError ''shape is invalid for input size'')
            else if b * c * w * h \<noteq> nchannel (mode im) * snd (isize im) * fst (isize im)
            then Inl (RuntimeError ''shape is invalid for input size'')
            else Inr ([b, c, w, h],
                      map div255
                        (hwc_to_chw (nchannel (mode im)) (snd (isize im) * fst (isize im)) (pixels im))))))"
  unfolding forward_4d [OF assms]
  by (simp add: observe_def contents_result length_hwc_to_chw mult.assoc
      del: contiguous_strides.simps split: option.splits sum.splits)

section \<open>Auxiliary facts: the steps of the specification\<close>

lemma word8_mod: "(of_int (k mod 256) :: byte) = word_of_int k"
  by (simp add: word_of_int_eq_iff take_bit_eq_mod)

lemma spec_sample_eq: "spec_sample und v = byte_cast und (mul255 v)"
proof (cases "mul255 v")
  case (Fin r)
  show ?thesis
  proof (cases "0 \<le> r")
    case True
    have "\<lfloor>r\<rfloor> < 2 ^ 63 \<longleftrightarrow> r < 2 ^ 63" by (simp add: floor_less_iff)
    moreover have "- (2 ^ 63) \<le> \<lfloor>r\<rfloor>" using True by (simp add: le_floor_iff)
    moreover have "- (2 ^ 63) - 1 < r"
    proof -
      have "(0 :: real) < 2 ^ 63" by simp
      with True show ?thesis by linarith
    qed
    ultimately show ?thesis
      using True by (simp add: spec_sample_def byte_cast_def Fin word8_mod)
  next
    case False
    have "- (2 ^ 63) \<le> \<lceil>r\<rceil> \<longleftrightarrow> - (2 ^ 63) - 1 < r" by (simp add: le_ceiling_iff)
    moreover have "\<lceil>r\<rceil> < 2 ^ 63"
    proof -
      have "\<lceil>r\<rceil> \<le> 0" using False by (simp add: ceiling_le_iff)
      moreover have "(0 :: int) < 2 ^ 63" by simp
      ultimately show ?thesis by linarith
    qed
    moreover have "r < 2 ^ 63"
    proof -
      have "(0 :: real) < 2 ^ 63" by simp
      with False show ?thesis by linarith
    qed
    ultimately show ?thesis
      using False by (simp add: spec_sample_def byte_cast_def Fin word8_mod ceiling_def)
  qed
qed (simp_all add: spec_sample_def byte_cast_def)

lemma spec_channels: "(case m of L \<Rightarrow> 1 | RGB \<Rightarrow> 3 | CMYK \<Rightarrow> 4) = nchannel m"
  by (cases m) (simp_all add: nchannel_def)

lemma blocks_index:
  "concat (map (\<lambda>c. map (\<lambda>i. f i c) [0..<hw]) [0..<n])
   = map (\<lambda>j. f (j mod hw) (j div hw)) [0..<n * hw]"
proof (induction n)
  case 0
  then show ?case by simp
next
  case (Suc n)
  have split: "[0..<n * hw + hw] = [0..<n * hw] @ [n * hw..<n * hw + hw]"
    by (rule upt_add_eq_append) simp
  have "[n * hw..<n * hw + hw] = map (\<lambda>i. i + n * hw) [0..<hw]"
    using map_add_upt [of "n * hw" hw] by (simp add: add.commute)
  then have "map (\<lambda>j. f (j mod hw) (j div hw)) [n * hw..<n * hw + hw]
        = map (\<lambda>i. f ((i + n * hw) mod hw) ((i + n * hw) div hw)) [0..<hw]"
    by (simp add: comp_def)
  also have "\<dots> = map (\<lambda>i. f i n) [0..<hw]"
    by (rule map_cong) auto
  finally have last: "map (\<lambda>j. f (j mod hw) (j div hw)) [n * hw..<n * hw + hw]
                        = map (\<lambda>i. f i n) [0..<hw]" .
  have "map (\<lambda>j. f (j mod hw) (j div hw)) [0..<Suc n * hw]
        = map (\<lambda>j. f (j mod hw) (j div hw)) ([0..<n * hw] @ [n * hw..<n * hw + hw])"
    using split by (simp add: add.commute)
  also have "\<dots> = concat (map (\<lambda>c. map (\<lambda>i. f i c) [0..<hw]) [0..<Suc n])"
    using Suc last by simp
  finally show ?case by simp
qed

lemma hwc_index:
  "hwc_to_chw n hw bs = map (\<lambda>i. bs ! ((i mod hw) * n + i div hw)) [0..<n * hw]"
  unfolding hwc_to_chw_def by (rule blocks_index)

section \<open>Auxiliary facts: the small codec\<close>

lemmas toy_defs = toy_library_def toy_encode_def toy_decode_def zero_cast_def byte_cast_def
  hwc_to_chw_one nchannel_def div255_def

lemma toy_run:
  "forward toy_library ctx \<lparr>storage = 0, offset = 0, shape = [1, 1, 2, 2], stride = [4, 4, 2, 1]\<rparr>
     \<lparr>storages = [[Fin (- 1 / 2), Fin (1 / 2), Fin 1, Fin (3 / 2)]], streams = []\<rparr>
   = Inr (\<lparr>storage = 2, offset = 0, shape = [1, 1, 2, 2], stride = [4, 4, 2, 1]\<rparr>,
          \<lparr>storages = [[Fin (- 1 / 2), Fin (1 / 2), Fin 1, Fin (3 / 2)], replicate 4 (Fin 0),
                       [Fin (128 / 255), Fin (124 / 255), Fin (252 / 255), Fin (124 / 255)]],
           streams = [\<lparr>buf = [0, 4, 0, 1, 128, 124, 252, 124], pos = 8\<rparr>]\<rparr>)"
  by (simp add: forward_defs view_def computeStride_def contents_def element_def f32_values toy_defs
      upt_conv_Cons)

lemma observe_forward_cong:
  assumes "in_store s1 x1" and "in_store s2 x2"
    and "shape x1 = [b, c, w, h]" and "shape x2 = [b, c, w, h]"
    and "computeStride [b, c, w, h] (stride x1) [b * c, w * h] = None
         \<longleftrightarrow> computeStride [b, c, w, h] (stride x2) [b * c, w * h] = None"
    and "map (\<lambda>v. byte_cast (cast_undefined lib) (mul255 v)) (contents s1 x1)
         = map (\<lambda>v. byte_cast (cast_undefined lib) (mul255 v)) (contents s2 x2)"
  shows "observe (forward lib ctx1 x1 s1) = observe (forward lib ctx2 x2 s2)"
proof -
  define rest where "rest = (\<lambda>px.
    case encode lib ''JPEG'' 90 \<lparr>mode = L, isize = (w * h, b * c), pixels = px\<rparr> of
       Inl e \<Rightarrow> Inl e
     | Inr bs \<Rightarrow>
        (case decode lib bs of
           Inl e \<Rightarrow> Inl e
         | Inr im \<Rightarrow>
            if length (pixels im) \<noteq> snd (isize im) * fst (isize im) * nchannel (mode im)
            then Inl (RuntimeError ''shape is invalid for input size'')
            else if b * c * w * h \<noteq> nchannel (mode im) * snd (isize im) * fst (isize im)
            then Inl (RuntimeError ''shape is invalid for input size'')
            else Inr ([b, c, w, h],
                      map div255
                        (hwc_to_chw (nchannel (mode im)) (snd (isize im) * fst (isize im)) (pixels im)))))"
  have o: "observe (forward lib ctx x s) =
      (if computeStride [b, c, w, h] (stride x) [b * c, w * h] = None
       then Inl incompatible_view
       else rest (map (\<lambda>v. byte_cast (cast_undefined lib) (mul255 v)) (contents s x)))"
    if "in_store s x" "shape x = [b, c, w, h]" for x s and ctx :: 'c
    unfolding observe_forward_4d [OF that(2,1)] rest_def
    by (simp split: option.splits)
  have o': "observe (forward lib ctx x s) =
      (if computeStride [b, c, w, h] (stride x) [b * c, w * h] = None
       then Inl incompatible_view
       else rest (map (\<lambda>v. byte_cast (cast_undefined lib) (mul255 v)) (contents s x)))"
    if "in_store s x" "shape x = [b, c, w, h]" for x s and ctx :: 'd
    unfolding observe_forward_4d [OF that(2,1)] rest_def
    by (simp split: option.splits)
  show ?thesis
    unfolding o [OF assms(1,3)] o' [OF assms(2,4)] assms(5) assms(6) ..
qed

lemma spec_decode_eq:
  "spec_decode lib bs =
     (case decode lib bs of
        Inl e \<Rightarrow> None
      | Inr im \<Rightarrow>
          if length (pixels im) \<noteq> snd (isize im) * fst (isize im) * nchannel (mode im) then None
          else Some (map div255
                 (hwc_to_chw (nchannel (mode im)) (snd (isize im) * fst (isize im)) (pixels im))))"
proof (cases "decode lib bs")
  case (Inl e)
  then show ?thesis by (simp add: spec_decode_def)
next
  case (Inr im)
  define n wd ht where "n = nchannel (mode im)" and "wd = fst (isize im)" and "ht = snd (isize im)"
  have a: "ht * wd * n = n * (wd * ht)" and b: "ht * wd = wd * ht" by (simp_all add: ac_simps)
  have "spec_decode lib bs =
          (if length (pixels im) = n * (wd * ht)
           then Some (map (\<lambda>i. Fin (real (unat (pixels im ! ((i mod (wd * ht)) * n + i div (wd * ht)))) / 255))
                        [0..<n * (wd * ht)])
           else None)"
    by (simp add: spec_decode_def Inr spec_channels n_def wd_def ht_def Let_def)
  also have "\<dots> = (if length (pixels im) \<noteq> ht * wd * n then None
          else Some (map div255 (hwc_to_chw n (ht * wd) (pixels im))))"
    unfolding a b by (simp add: hwc_index div255_def comp_def)
  finally show ?thesis by (simp add: Inr n_def wd_def ht_def)
qed

lemma computeStride_ones:
  "computeStride [1, 1, 1, 1] [k1, k2, k3, k4] [1 * 1, 1 * 1] \<noteq> None"
  by (simp add: computeStride_def)

lemma toy_contents:
  "contents \<lparr>storages = [[Fin (- 1 / 2), Fin (1 / 2), Fin 1, Fin (3 / 2)]], streams = []\<rparr>
     \<lparr>storage = 0, offset = 0, shape = [1, 1, 2, 2], stride = [4, 4, 2, 1]\<rparr>
   = [Fin (- 1 / 2), Fin (1 / 2), Fin 1, Fin (3 / 2)]"
  "contents \<lparr>storages = [[Fin (- 1 / 2), Fin (1 / 2), Fin 1, Fin (3 / 2)], replicate 4 (Fin 0),
                       [Fin (128 / 255), Fin (124 / 255), Fin (252 / 255), Fin (124 / 255)]],
           streams = [\<lparr>buf = [0, 4, 0, 1, 128, 124, 252, 124], pos = 8\<rparr>]\<rparr>
     \<lparr>storage = 2, offset = 0, shape = [1, 1, 2, 2], stride = [4, 4, 2, 1]\<rparr>
   = [Fin (128 / 255), Fin (124 / 255), Fin (252 / 255), Fin (124 / 255)]"
  "contents \<lparr>storages = [[Fin (- 1 / 2), Fin (1 / 2), Fin 1, Fin (3 / 2)], replicate 4 (Fin 0),
                       [Fin (128 / 255), Fin (124 / 255), Fin (252 / 255), Fin (124 / 255)]],
           streams = [\<lparr>buf = [0, 4, 0, 1, 128, 124, 252, 124], pos = 8\<rparr>]\<rparr>
     \<lparr>storage = 0, offset = 0, shape = [1, 1, 2, 2], stride = [4, 4, 2, 1]\<rparr>
   = [Fin (- 1 / 2), Fin (1 / 2), Fin 1, Fin (3 / 2)]"
  "contents \<lparr>storages = [[NaN], [PInf, Fin (- 1 / 2), Fin (1 / 2), Fin 1, Fin (3 / 2)]],
             streams = [\<lparr>buf = [1], pos = 1\<rparr>]\<rparr>
     \<lparr>storage = 1, offset = 1, shape = [1, 1, 2, 2], stride = [4, 4, 2, 1]\<rparr>
   = [Fin (- 1 / 2), Fin (1 / 2), Fin 1, Fin (3 / 2)]"
  by (simp_all add: contents_def element_def upt_conv_Cons)

section \<open>The backward pass\<close>

text \<open>
  C1. For every gradient tensor G, of any shape, \<^verbatim>\<open>backward\<close> returns G itself: the same
  tensor object, with the store (hence every value of G) as it was. The gradient that
  reaches the preceding layer is the gradient that entered, neither scaled nor zeroed.
\<close>

theorem backward_identity:
  "backward ctx G s = Inr (G, s)"
  by (simp add: backward_def io_return_def)

section \<open>The shape of the output\<close>

text \<open>
  C2. Whenever \<^verbatim>\<open>forward\<close> returns, whatever the library, its input is 4-dimensional and
  the returned tensor has exactly the shape (B, C, W, H) of the input.
\<close>

theorem forward_shape:
  "forward lib ctx x s = Inr (y, s') \<Longrightarrow> length (shape x) = 4 \<and> shape y = shape x"
  by (erule forward_InrE) simp

theorem forward_shape_witness:
  "forward toy_library () \<lparr>storage = 0, offset = 0, shape = [1, 1, 2, 2], stride = [4, 4, 2, 1]\<rparr>
     \<lparr>storages = [[Fin (- 1 / 2), Fin (1 / 2), Fin 1, Fin (3 / 2)]], streams = []\<rparr>
   = Inr (\<lparr>storage = 2, offset = 0, shape = [1, 1, 2, 2], stride = [4, 4, 2, 1]\<rparr>,
          \<lparr>storages = [[Fin (- 1 / 2), Fin (1 / 2), Fin 1, Fin (3 / 2)], replicate 4 (Fin 0),
                       [Fin (128 / 255), Fin (124 / 255), Fin (252 / 255), Fin (124 / 255)]],
           streams = [\<lparr>buf = [0, 4, 0, 1, 128, 124, 252, 124], pos = 8\<rparr>]\<rparr>)
   \<and> length (shape \<lparr>storage = 0, offset = 0, shape = [1, 1, 2, 2], stride = [4, 4, 2, 1]\<rparr>) = 4
   \<and> shape \<lparr>storage = 2, offset = 0, shape = [1, 1, 2, 2], stride = [4, 4, 2, 1]\<rparr>
       = shape \<lparr>storage = 0, offset = 0, shape = [1, 1, 2, 2], stride = [4, 4, 2, 1]\<rparr>"
  using forward_shape [OF toy_run [of "()"]] toy_run [of "()"] by simp

section \<open>The range of the output\<close>

text \<open>
  C3 says that input values outside [0,1] are clamped by the image encode step. They are
  not: \<^verbatim>\<open>ToPILImage\<close> multiplies by 255 and converts to 8 bits, which wraps. The value
  3/2 becomes the sample 126 (382 modulo 256), while the clamped value 1 becomes 255.
\<close>

theorem encode_step_wraps:
  "ToPILImage zero_cast \<lparr>storage = 0, offset = 0, shape = [1, 1], stride = [1, 1]\<rparr>
     \<lparr>storages = [[Fin (3 / 2)]], streams = []\<rparr>
     = Inr (\<lparr>mode = L, isize = (1, 1), pixels = [126]\<rparr>,
            \<lparr>storages = [[Fin (3 / 2)]], streams = []\<rparr>)
   \<and> ToPILImage zero_cast \<lparr>storage = 0, offset = 0, shape = [1, 1], stride = [1, 1]\<rparr>
     \<lparr>storages = [[Fin (clamp01 (3 / 2))]], streams = []\<rparr>
     = Inr (\<lparr>mode = L, isize = (1, 1), pixels = [255]\<rparr>,
            \<lparr>storages = [[Fin (clamp01 (3 / 2))]], streams = []\<rparr>)"
  by (simp add: ToPILImage_def contents_def element_def byte_cast_def clamp01_def f32_values)

text \<open>
  C3, amended. For every input on which \<^verbatim>\<open>forward\<close> returns, values outside [0,1]
  included, every value of the output is a finite number in [0,1]. An out-of-range
  value is not clamped by the encode step: \<^verbatim>\<open>forward\<close> treats the input value 3/2 as it
  treats the in-range value 126/255, whose sample is 126 too, whatever the library.
\<close>

theorem forward_range:
  "(forward lib ctx x s = Inr (y, s') \<longrightarrow>
      (\<forall>v \<in> set (contents s' y). \<exists>r. v = Fin r \<and> 0 \<le> r \<and> r \<le> 1))
   \<and> (in_store s1 x1 \<and> shape x1 = [1, 1, 1, 1] \<and> contents s1 x1 = [Fin (3 / 2)]
       \<and> in_store s2 x2 \<and> shape x2 = [1, 1, 1, 1] \<and> contents s2 x2 = [Fin (126 / 255)] \<longrightarrow>
      observe (forward lib ctx x1 s1) = observe (forward lib ctx x2 s2))"
proof (intro conjI impI)
  assume run: "forward lib ctx x s = Inr (y, s')"
  have sub: "set (contents s' y) \<subseteq> (\<lambda>k. Fin (real k / 255)) ` {0..255}"
    using run by (rule forward_levels)
  show "\<forall>v \<in> set (contents s' y). \<exists>r. v = Fin r \<and> 0 \<le> r \<and> r \<le> 1"
  proof
    fix v assume "v \<in> set (contents s' y)"
    with sub obtain k :: nat where k: "k \<le> 255" and v: "v = Fin (real k / 255)" by auto
    have "0 \<le> real k / 255 \<and> real k / 255 \<le> 1" using k by simp
    with v show "\<exists>r. v = Fin r \<and> 0 \<le> r \<and> r \<le> 1" by blast
  qed
next
  assume h: "in_store s1 x1 \<and> shape x1 = [1, 1, 1, 1] \<and> contents s1 x1 = [Fin (3 / 2)]
       \<and> in_store s2 x2 \<and> shape x2 = [1, 1, 1, 1] \<and> contents s2 x2 = [Fin (126 / 255)]"
  then have st: "in_store s1 x1" "in_store s2 x2"
    and shp: "shape x1 = [1, 1, 1, 1]" "shape x2 = [1, 1, 1, 1]"
    and c: "contents s1 x1 = [Fin (3 / 2)]" "contents s2 x2 = [Fin (126 / 255)]"
    by simp_all
  have viewable: "computeStride [1, 1, 1, 1] (stride t) [1 * 1, 1 * 1] \<noteq> None"
    if "in_store s0 t" "shape t = [1, 1, 1, 1]" for s0 t
  proof -
    have "length (stride t) = 4" using that by (simp add: in_store_def)
    then obtain k1 k2 k3 k4 where "stride t = [k1, k2, k3, k4]" by (rule length4E)
    then show ?thesis using computeStride_ones [of k1 k2 k3 k4] by simp
  qed
  show "observe (forward lib ctx x1 s1) = observe (forward lib ctx x2 s2)"
  proof (rule observe_forward_cong [OF st shp])
    show "computeStride [1, 1, 1, 1] (stride x1) [1 * 1, 1 * 1] = None
          \<longleftrightarrow> computeStride [1, 1, 1, 1] (stride x2) [1 * 1, 1 * 1] = None"
      using viewable [OF st(1) shp(1)] viewable [OF st(2) shp(2)] by blast
    show "map (\<lambda>v. byte_cast (cast_undefined lib) (mul255 v)) (contents s1 x1)
          = map (\<lambda>v. byte_cast (cast_undefined lib) (mul255 v)) (contents s2 x2)"
      by (simp add: c byte_cast_def f32_values)
  qed
qed

theorem forward_range_witness:
  "list_all (\<lambda>v. \<exists>r. v = Fin r \<and> 0 \<le> r \<and> r \<le> 1)
     [Fin (128 / 255), Fin (124 / 255), Fin (252 / 255), Fin (124 / 255)]
   \<and> observe (forward toy_library ()
         \<lparr>storage = 0, offset = 0, shape = [1, 1, 1, 1], stride = [1, 1, 1, 1]\<rparr>
         \<lparr>storages = [[Fin (3 / 2)]], streams = []\<rparr>)
     = observe (forward toy_library ()
         \<lparr>storage = 0, offset = 0, shape = [1, 1, 1, 1], stride = [1, 1, 1, 1]\<rparr>
         \<lparr>storages = [[Fin (126 / 255)]], streams = []\<rparr>)"
proof -
  note run = toy_run [of "()"]
  note r = forward_range [of toy_library "()"
      "\<lparr>storage = 0, offset = 0, shape = [1, 1, 2, 2], stride = [4, 4, 2, 1]\<rparr>"
      "\<lparr>storages = [[Fin (- 1 / 2), Fin (1 / 2), Fin 1, Fin (3 / 2)]], streams = []\<rparr>"
      "\<lparr>storage = 2, offset = 0, shape = [1, 1, 2, 2], stride = [4, 4, 2, 1]\<rparr>"
      "\<lparr>storages = [[Fin (- 1 / 2), Fin (1 / 2), Fin 1, Fin (3 / 2)], replicate 4 (Fin 0),
                       [Fin (128 / 255), Fin (124 / 255), Fin (252 / 255), Fin (124 / 255)]],
           streams = [\<lparr>buf = [0, 4, 0, 1, 128, 124, 252, 124], pos = 8\<rparr>]\<rparr>"
      "\<lparr>storages = [[Fin (3 / 2)]], streams = []\<rparr>"
      "\<lparr>storage = 0, offset = 0, shape = [1, 1, 1, 1], stride = [1, 1, 1, 1]\<rparr>"
      "\<lparr>storages = [[Fin (126 / 255)]], streams = []\<rparr>"
      "\<lparr>storage = 0, offset = 0, shape = [1, 1, 1, 1], stride = [1, 1, 1, 1]\<rparr>"]
  have a: "list_all (\<lambda>v. \<exists>r. v = Fin r \<and> 0 \<le> r \<and> r \<le> 1)
     [Fin (128 / 255), Fin (124 / 255), Fin (252 / 255), Fin (124 / 255)]"
    using r [THEN conjunct1, rule_format, OF run]
    unfolding toy_contents list_all_iff by blast
  have b: "observe (forward toy_library ()
         \<lparr>storage = 0, offset = 0, shape = [1, 1, 1, 1], stride = [1, 1, 1, 1]\<rparr>
         \<lparr>storages = [[Fin (3 / 2)]], streams = []\<rparr>)
     = observe (forward toy_library ()
         \<lparr>storage = 0, offset = 0, shape = [1, 1, 1, 1], stride = [1, 1, 1, 1]\<rparr>
         \<lparr>storages = [[Fin (126 / 255)]], streams = []\<rparr>)"
    by (rule r [THEN conjunct2, rule_format])
       (simp add: in_store_def contents_def element_def)
  from a b show ?thesis by (rule conjI)
qed

section \<open>The steps of the forward pass\<close>

text \<open>
  C4. On a 4-dimensional tensor of the store whose strides admit the 2-D view (a
  contiguous tensor, for one), what \<^verbatim>\<open>forward\<close> returns is what the four steps of the
  specification give on its shape and values, in their order: reshape to
  batch*channels rows of width*height columns as a single-channel image, encode as JPEG
  at quality 90, decode to floats normalised to [0,1], reshape to (batch, channels,
  width, height); and \<^verbatim>\<open>forward\<close> raises where a step fails. Where the strides do not
  admit the view, \<^verbatim>\<open>forward\<close> raises.
\<close>

theorem forward_refines_spec:
  assumes "shape x = [b, c, w, h]" and "in_store s x"
  shows "returned (forward lib ctx x s) =
           (if computeStride (shape x) (stride x) [b * c, w * h] = None then None
            else forward_spec lib (shape x, contents s x))"
proof -
  have len: "length (contents s x) = b * c * w * h"
    using assms by (simp add: length_contents in_store_def numel_def mult.assoc)
  have ret: "returned r = (case observe r of Inl e \<Rightarrow> None | Inr a \<Rightarrow> Some a)" for r
    by (simp add: returned_def observe_def split: sum.splits)
  have img: "spec_image (cast_undefined lib) ([b, c, w, h], contents s x)
             = Some \<lparr>mode = L, isize = (w * h, b * c),
                     pixels = map (\<lambda>v. byte_cast (cast_undefined lib) (mul255 v)) (contents s x)\<rparr>"
    using len by (simp add: spec_sample_eq [abs_def])
  show ?thesis
    unfolding ret observe_forward_4d [OF assms] assms(1) forward_spec_def img
    by (auto simp: spec_encode_def spec_decode_eq spec_reshape_back_def length_hwc_to_chw
        mult.assoc split: sum.splits option.splits)
qed

theorem forward_refines_spec_witness:
  "forward_spec toy_library ([1, 1, 2, 2], [Fin (- 1 / 2), Fin (1 / 2), Fin 1, Fin (3 / 2)])
     = Some ([1, 1, 2, 2], [Fin (128 / 255), Fin (124 / 255), Fin (252 / 255), Fin (124 / 255)])
   \<and> returned (forward toy_library ()
         \<lparr>storage = 0, offset = 0, shape = [1, 1, 2, 2], stride = [4, 4, 1, 2]\<rparr>
         \<lparr>storages = [[Fin (- 1 / 2), Fin (1 / 2), Fin 1, Fin (3 / 2)]], streams = []\<rparr>) = None"
proof -
  let ?s = "\<lparr>storages = [[Fin (- 1 / 2), Fin (1 / 2), Fin 1, Fin (3 / 2)]], streams = []\<rparr>"
  let ?x = "\<lparr>storage = 0, offset = 0, shape = [1, 1, 2, 2], stride = [4, 4, 2, 1]\<rparr>"
  let ?t = "\<lparr>storage = 0, offset = 0, shape = [1, 1, 2, 2], stride = [4, 4, 1, 2]\<rparr>"
  note run = toy_run [of "()"]
  have hx: "shape ?x = [1, 1, 2, 2]" "in_store ?s ?x" and ht: "shape ?t = [1, 1, 2, 2]" "in_store ?s ?t"
    by (simp_all add: in_store_def)
  have ok: "computeStride (shape ?x) (stride ?x) [1 * 1, 2 * 2] \<noteq> None"
    and no: "computeStride (shape ?t) (stride ?t) [1 * 1, 2 * 2] = None"
    by (simp_all add: computeStride_def)
  have "returned (forward toy_library () ?x ?s) = forward_spec toy_library (shape ?x, contents ?s ?x)"
    using forward_refines_spec [OF hx, of toy_library "()"] ok by (simp only: if_False)
  then have a: "forward_spec toy_library ([1, 1, 2, 2], [Fin (- 1 / 2), Fin (1 / 2), Fin 1, Fin (3 / 2)])
     = Some ([1, 1, 2, 2], [Fin (128 / 255), Fin (124 / 255), Fin (252 / 255), Fin (124 / 255)])"
    unfolding run by (simp add: returned_def toy_contents [simplified])
  have b: "returned (forward toy_library () ?t ?s) = None"
    unfolding forward_refines_spec [OF ht, of toy_library "()"] no by simp
  from a b show ?thesis by (rule conjI)
qed

section \<open>Malformed and well-formed input\<close>

text \<open>
  C5. A malformed input makes \<^verbatim>\<open>forward\<close> raise at once, before the codec is consulted
  and whatever the library is. An input that is not 4-dimensional raises the ValueError
  of Python's unpacking, whose message tells the number of dimensions expected (and,
  when there are too few, the number got). A 4-dimensional input whose strides do not
  admit the view to batch*channels rows of width*height columns raises the RuntimeError
  of \<^verbatim>\<open>view\<close>. On a 4-dimensional tensor of the store whose strides admit the view,
  \<^verbatim>\<open>forward\<close> returns without raising when the codec accepts the image and gives back
  a single-channel image of the same size.
\<close>

theorem forward_fails_fast:
  "(length (shape x) < 4 \<longrightarrow>
      forward lib ctx x s = Inl (ValueError
        (''not enough values to unpack (expected 4, got '' @ digit (length (shape x)) @ '')'')))
   \<and> (4 < length (shape x) \<longrightarrow>
      forward lib ctx x s = Inl (ValueError ''too many values to unpack (expected 4)''))
   \<and> (shape x = [b, c, w, h] \<and> computeStride (shape x) (stride x) [b * c, w * h] = None \<longrightarrow>
      forward lib ctx x s = Inl incompatible_view)
   \<and> (shape x = [b, c, w, h] \<and> in_store s x
       \<and> computeStride (shape x) (stride x) [b * c, w * h] \<noteq> None
       \<and> encode lib ''JPEG'' 90
            \<lparr>mode = L, isize = (w * h, b * c),
             pixels = map (\<lambda>v. byte_cast (cast_undefined lib) (mul255 v)) (contents s x)\<rparr> = Inr bs
       \<and> decode lib bs = Inr im
       \<and> mode im = L \<and> isize im = (w * h, b * c) \<and> length (pixels im) = b * c * w * h \<longrightarrow>
      (\<exists>y s'. forward lib ctx x s = Inr (y, s')))"
proof (intro conjI impI)
  assume "length (shape x) < 4"
  then show "forward lib ctx x s = Inl (ValueError
        (''not enough values to unpack (expected 4, got '' @ digit (length (shape x)) @ '')''))"
    by (rule forward_short)
next
  assume "4 < length (shape x)"
  then show "forward lib ctx x s = Inl (ValueError ''too many values to unpack (expected 4)'')"
    by (rule forward_long)
next
  assume h: "shape x = [b, c, w, h] \<and> computeStride (shape x) (stride x) [b * c, w * h] = None"
  then have shp: "shape x = [b, c, w, h]" by simp
  from h have "computeStride (shape x) (stride x) [b * c, w * h] = None" by (rule conjunct2)
  then have cs: "computeStride [b, c, w, h] (stride x) [b * c, w * h] = None" unfolding shp .
  show "forward lib ctx x s = Inl incompatible_view"
    unfolding forward_4d_raw [OF shp] cs by simp
next
  assume h: "shape x = [b, c, w, h] \<and> in_store s x
       \<and> computeStride (shape x) (stride x) [b * c, w * h] \<noteq> None
       \<and> encode lib ''JPEG'' 90
            \<lparr>mode = L, isize = (w * h, b * c),
             pixels = map (\<lambda>v. byte_cast (cast_undefined lib) (mul255 v)) (contents s x)\<rparr> = Inr bs
       \<and> decode lib bs = Inr im
       \<and> mode im = L \<and> isize im = (w * h, b * c) \<and> length (pixels im) = b * c * w * h"
  then have shp: "shape x = [b, c, w, h]" and st: "in_store s x" by simp_all
  show "\<exists>y s'. forward lib ctx x s = Inr (y, s')"
    unfolding forward_4d [OF shp st] using h
    by (auto simp: nchannel_def mult.assoc mult.commute [of w h])
qed

theorem forward_fails_fast_witness:
  "forward toy_library () \<lparr>storage = 0, offset = 0, shape = [1, 2, 2], stride = [4, 2, 1]\<rparr>
     \<lparr>storages = [[Fin (- 1 / 2), Fin (1 / 2), Fin 1, Fin (3 / 2)]], streams = []\<rparr>
     = Inl (ValueError ''not enough values to unpack (expected 4, got 3)'')
   \<and> forward toy_library ()
       \<lparr>storage = 0, offset = 0, shape = [1, 1, 1, 2, 2], stride = [4, 4, 4, 2, 1]\<rparr>
     \<lparr>storages = [[Fin (- 1 / 2), Fin (1 / 2), Fin 1, Fin (3 / 2)]], streams = []\<rparr>
     = Inl (ValueError ''too many values to unpack (expected 4)'')
   \<and> forward toy_library () \<lparr>storage = 0, offset = 0, shape = [1, 1, 2, 2], stride = [4, 4, 1, 2]\<rparr>
     \<lparr>storages = [[Fin (- 1 / 2), Fin (1 / 2), Fin 1, Fin (3 / 2)]], streams = []\<rparr>
     = Inl incompatible_view
   \<and> (\<exists>y s'. forward toy_library ()
         \<lparr>storage = 0, offset = 0, shape = [1, 1, 2, 2], stride = [4, 4, 2, 1]\<rparr>
     \<lparr>storages = [[Fin (- 1 / 2), Fin (1 / 2), Fin 1, Fin (3 / 2)]], streams = []\<rparr> = Inr (y, s'))"
proof -
  let ?s = "\<lparr>storages = [[Fin (- 1 / 2), Fin (1 / 2), Fin 1, Fin (3 / 2)]], streams = []\<rparr>"
  have a: "forward toy_library () \<lparr>storage = 0, offset = 0, shape = [1, 2, 2], stride = [4, 2, 1]\<rparr> ?s
     = Inl (ValueError ''not enough values to unpack (expected 4, got 3)'')"
    using forward_fails_fast [of "\<lparr>storage = 0, offset = 0, shape = [1, 2, 2], stride = [4, 2, 1]\<rparr>"
        toy_library "()" ?s]
    by (simp add: digit_def)
  have b: "forward toy_library ()
       \<lparr>storage = 0, offset = 0, shape = [1, 1, 1, 2, 2], stride = [4, 4, 4, 2, 1]\<rparr> ?s
     = Inl (ValueError ''too many values to unpack (expected 4)'')"
    using forward_fails_fast [of
        "\<lparr>storage = 0, offset = 0, shape = [1, 1, 1, 2, 2], stride = [4, 4, 4, 2, 1]\<rparr>"
        toy_library "()" ?s]
    by simp
  have c: "forward toy_library ()
       \<lparr>storage = 0, offset = 0, shape = [1, 1, 2, 2], stride = [4, 4, 1, 2]\<rparr> ?s
     = Inl incompatible_view"
    using forward_fails_fast [of
        "\<lparr>storage = 0, offset = 0, shape = [1, 1, 2, 2], stride = [4, 4, 1, 2]\<rparr>"
        toy_library "()" ?s 1 1 2 2]
    by (simp add: computeStride_def)
  have d: "\<exists>y s'. forward toy_library ()
       \<lparr>storage = 0, offset = 0, shape = [1, 1, 2, 2], stride = [4, 4, 2, 1]\<rparr> ?s = Inr (y, s')"
    using forward_fails_fast [of
        "\<lparr>storage = 0, offset = 0, shape = [1, 1, 2, 2], stride = [4, 4, 2, 1]\<rparr>"
        toy_library "()" ?s 1 1 2 2
        "[0, 4, 0, 1, 128, 124, 252, 124]"
        "\<lparr>mode = L, isize = (4, 1), pixels = [128, 124, 252, 124]\<rparr>"]
    by (simp add: computeStride_def in_store_def toy_contents [simplified] toy_defs f32_values)
  from a b c d show ?thesis by blast
qed

section \<open>Purity\<close>

text \<open>
  C6. \<^verbatim>\<open>forward\<close> and \<^verbatim>\<open>backward\<close> are pure. Called in two stores, with whatever history,
  on tensors of equal sizes, strides and values, each gives the same outcome (the same
  exception, or tensors of equal shape and values); the context argument plays no part.
  Neither writes to an object that existed before the call: \<^verbatim>\<open>forward\<close> only adds
  objects to the store, \<^verbatim>\<open>backward\<close> leaves it as it is.
\<close>

theorem bottleneck_pure:
  assumes "in_store s1 x1" and "in_store s2 x2"
    and "shape x1 = shape x2" and "stride x1 = stride x2"
    and "contents s1 x1 = contents s2 x2"
  shows "observe (forward lib ctx1 x1 s1) = observe (forward lib ctx2 x2 s2)
       \<and> observe (backward ctx1 x1 s1) = observe (backward ctx2 x2 s2)
       \<and> (\<forall>y s'. forward lib ctx1 x1 s1 = Inr (y, s') \<longrightarrow>
             take (length (storages s1)) (storages s') = storages s1
             \<and> take (length (streams s1)) (streams s') = streams s1)
       \<and> (\<forall>y s'. backward ctx1 x1 s1 = Inr (y, s') \<longrightarrow> s' = s1)"
proof (intro conjI allI impI)
  show "observe (forward lib ctx1 x1 s1) = observe (forward lib ctx2 x2 s2)"
  proof (cases rule: forward_cases [of x1])
    case short
    then show ?thesis using assms(3) by (simp add: forward_short)
  next
    case long
    then show ?thesis using assms(3) by (simp add: forward_long)
  next
    case (four b c w h)
    then have "shape x2 = [b, c, w, h]" using assms(3) by simp
    then show ?thesis
      using four assms(1,2,4,5) by (intro observe_forward_cong [of _ _ _ _ b c w h]) simp_all
  qed
  show "observe (backward ctx1 x1 s1) = observe (backward ctx2 x2 s2)"
    using assms(3,5) by (simp add: backward_def io_return_def observe_def)
next
  fix y s' assume "forward lib ctx1 x1 s1 = Inr (y, s')"
  then show "take (length (storages s1)) (storages s') = storages s1"
    and "take (length (streams s1)) (streams s') = streams s1"
    by (elim forward_InrE; simp)+
next
  fix y s' assume "backward ctx1 x1 s1 = Inr (y, s')"
  then show "s' = s1" by (simp add: backward_def io_return_def)
qed

theorem bottleneck_pure_witness:
  "observe (forward toy_library ()
              \<lparr>storage = 0, offset = 0, shape = [1, 1, 2, 2], stride = [4, 4, 2, 1]\<rparr>
              \<lparr>storages = [[Fin (- 1 / 2), Fin (1 / 2), Fin 1, Fin (3 / 2)]], streams = []\<rparr>)
   = observe (forward toy_library ()
              \<lparr>storage = 1, offset = 1, shape = [1, 1, 2, 2], stride = [4, 4, 2, 1]\<rparr>
              \<lparr>storages = [[NaN], [PInf, Fin (- 1 / 2), Fin (1 / 2), Fin 1, Fin (3 / 2)]],
               streams = [\<lparr>buf = [1], pos = 1\<rparr>]\<rparr>)
   \<and> observe (backward ()
              \<lparr>storage = 0, offset = 0, shape = [1, 1, 2, 2], stride = [4, 4, 2, 1]\<rparr>
              \<lparr>storages = [[Fin (- 1 / 2), Fin (1 / 2), Fin 1, Fin (3 / 2)]], streams = []\<rparr>)
   = observe (backward ()
              \<lparr>storage = 1, offset = 1, shape = [1, 1, 2, 2], stride = [4, 4, 2, 1]\<rparr>
              \<lparr>storages = [[NaN], [PInf, Fin (- 1 / 2), Fin (1 / 2), Fin 1, Fin (3 / 2)]],
               streams = [\<lparr>buf = [1], pos = 1\<rparr>]\<rparr>)
   \<and> take 1 [[Fin (- 1 / 2), Fin (1 / 2), Fin 1, Fin (3 / 2)], replicate 4 (Fin 0),
              [Fin (128 / 255), Fin (124 / 255), Fin (252 / 255), Fin (124 / 255)]]
       = [[Fin (- 1 / 2), Fin (1 / 2), Fin 1, Fin (3 / 2)]]"
proof -
  let ?s1 = "\<lparr>storages = [[Fin (- 1 / 2), Fin (1 / 2), Fin 1, Fin (3 / 2)]], streams = []\<rparr>"
  let ?x1 = "\<lparr>storage = 0, offset = 0, shape = [1, 1, 2, 2], stride = [4, 4, 2, 1]\<rparr>"
  let ?s2 = "\<lparr>storages = [[NaN], [PInf, Fin (- 1 / 2), Fin (1 / 2), Fin 1, Fin (3 / 2)]],
               streams = [\<lparr>buf = [1], pos = 1\<rparr>]\<rparr>"
  let ?x2 = "\<lparr>storage = 1, offset = 1, shape = [1, 1, 2, 2], stride = [4, 4, 2, 1]\<rparr>"
  note run = toy_run [of "()"]
  have h: "in_store ?s1 ?x1" "in_store ?s2 ?x2" "shape ?x1 = shape ?x2" "stride ?x1 = stride ?x2"
    "contents ?s1 ?x1 = contents ?s2 ?x2"
    unfolding toy_contents by (simp_all add: in_store_def)
  note p = bottleneck_pure [OF h, of toy_library "()" "()"]
  from p have a: "observe (forward toy_library () ?x1 ?s1) = observe (forward toy_library () ?x2 ?s2)"
    by (rule conjunct1)
  from p have b: "observe (backward () ?x1 ?s1) = observe (backward () ?x2 ?s2)"
    by blast
  from p run have c: "take 1 [[Fin (- 1 / 2), Fin (1 / 2), Fin 1, Fin (3 / 2)], replicate 4 (Fin 0),
              [Fin (128 / 255), Fin (124 / 255), Fin (252 / 255), Fin (124 / 255)]]
       = [[Fin (- 1 / 2), Fin (1 / 2), Fin 1, Fin (3 / 2)]]"
    by simp
  from a b c show ?thesis by blast
qed

section \<open>The levels of the output\<close>

text \<open>
  C9. Every value of the output of \<^verbatim>\<open>forward\<close> is k/255 for a natural number k of at
  most 255, so the output takes at most 256 distinct values, whatever the input and the
  library.
\<close>

theorem forward_output_levels:
  assumes "forward lib ctx x s = Inr (y, s')"
  shows "(\<forall>v \<in> set (contents s' y). \<exists>k::nat. k \<le> 255 \<and> v = Fin (real k / 255))
         \<and> card (set (contents s' y)) \<le> 256"
proof
  have sub: "set (contents s' y) \<subseteq> (\<lambda>k. Fin (real k / 255)) ` {0..255}"
    using assms by (rule forward_levels)
  then show "\<forall>v \<in> set (contents s' y). \<exists>k::nat. k \<le> 255 \<and> v = Fin (real k / 255)"
    by auto
  have "card (set (contents s' y)) \<le> card ((\<lambda>k. Fin (real k / 255)) ` {0..255::nat})"
    using sub by (intro card_mono) simp_all
  also have "\<dots> \<le> card {0..255::nat}" by (rule card_image_le) simp
  finally show "card (set (contents s' y)) \<le> 256" by simp
qed

theorem forward_output_levels_witness:
  "forward toy_library () \<lparr>storage = 0, offset = 0, shape = [1, 1, 2, 2], stride = [4, 4, 2, 1]\<rparr>
     \<lparr>storages = [[Fin (- 1 / 2), Fin (1 / 2), Fin 1, Fin (3 / 2)]], streams = []\<rparr>
   = Inr (\<lparr>storage = 2, offset = 0, shape = [1, 1, 2, 2], stride = [4, 4, 2, 1]\<rparr>,
          \<lparr>storages = [[Fin (- 1 / 2), Fin (1 / 2), Fin 1, Fin (3 / 2)], replicate 4 (Fin 0),
                       [Fin (128 / 255), Fin (124 / 255), Fin (252 / 255), Fin (124 / 255)]],
           streams = [\<lparr>buf = [0, 4, 0, 1, 128, 124, 252, 124], pos = 8\<rparr>]\<rparr>)
   \<and> list_all (\<lambda>v. \<exists>k::nat. k \<le> 255 \<and> v = Fin (real k / 255))
         [Fin (128 / 255), Fin (124 / 255), Fin (252 / 255), Fin (124 / 255)]
   \<and> card (set [Fin (128 / 255), Fin (124 / 255), Fin (252 / 255), Fin (124 / 255)]) \<le> 256"
proof -
  note run = toy_run [of "()"]
  show ?thesis
    using forward_output_levels [OF run] run unfolding toy_contents list_all_iff by blast
qed

section \<open>The input is left alone\<close>

text \<open>
  C10. \<^verbatim>\<open>forward\<close> does not mutate its input: after it returns, the input tensor holds
  the values it held before, as does every storage that existed before the call, and
  the returned tensor lies on a storage allocated by the call, distinct from the input's.
\<close>

theorem forward_input_untouched:
  assumes "forward lib ctx x s = Inr (y, s')" and "storage x < length (storages s)"
  shows "contents s' x = contents s x
         \<and> take (length (storages s)) (storages s') = storages s
         \<and> length (storages s) \<le> storage y \<and> storage y \<noteq> storage x"
proof -
  from assms(1) obtain b c w h bs and im :: image where
    y: "y = \<lparr>storage = Suc (length (storages s)), offset = 0, shape = [b, c, w, h],
          stride = contiguous_strides [b, c, w, h]\<rparr>"
    and s': "s' = \<lparr>storages = storages s @
              [replicate (b * c * w * h) (Fin 0),
               map div255
                 (hwc_to_chw (nchannel (mode im)) (snd (isize im) * fst (isize im)) (pixels im))],
           streams = streams s @ [\<lparr>buf = bs, pos = length bs\<rparr>]\<rparr>"
    by (rule forward_InrE)
  have "contents s' x = contents s x"
    using assms(2) by (intro contents_store) (simp add: s' nth_append)
  then show ?thesis using assms(2) by (simp add: y s')
qed

theorem forward_input_untouched_witness:
  "forward toy_library () \<lparr>storage = 0, offset = 0, shape = [1, 1, 2, 2], stride = [4, 4, 2, 1]\<rparr>
     \<lparr>storages = [[Fin (- 1 / 2), Fin (1 / 2), Fin 1, Fin (3 / 2)]], streams = []\<rparr>
   = Inr (\<lparr>storage = 2, offset = 0, shape = [1, 1, 2, 2], stride = [4, 4, 2, 1]\<rparr>,
          \<lparr>storages = [[Fin (- 1 / 2), Fin (1 / 2), Fin 1, Fin (3 / 2)], replicate 4 (Fin 0),
                       [Fin (128 / 255), Fin (124 / 255), Fin (252 / 255), Fin (124 / 255)]],
           streams = [\<lparr>buf = [0, 4, 0, 1, 128, 124, 252, 124], pos = 8\<rparr>]\<rparr>)
   \<and> storage \<lparr>storage = 0, offset = 0, shape = [1, 1, 2, 2], stride = [4, 4, 2, 1]\<rparr>
       < length (storages \<lparr>storages = [[Fin (- 1 / 2), Fin (1 / 2), Fin 1, Fin (3 / 2)]],
                           streams = []\<rparr>)
   \<and> contents \<lparr>storages = [[Fin (- 1 / 2), Fin (1 / 2), Fin 1, Fin (3 / 2)], replicate 4 (Fin 0),
                       [Fin (128 / 255), Fin (124 / 255), Fin (252 / 255), Fin (124 / 255)]],
           streams = [\<lparr>buf = [0, 4, 0, 1, 128, 124, 252, 124], pos = 8\<rparr>]\<rparr>
         \<lparr>storage = 0, offset = 0, shape = [1, 1, 2, 2], stride = [4, 4, 2, 1]\<rparr>
       = [Fin (- 1 / 2), Fin (1 / 2), Fin 1, Fin (3 / 2)]
   \<and> storage \<lparr>storage = 2, offset = 0, shape = [1, 1, 2, 2], stride = [4, 4, 2, 1]\<rparr>
       \<noteq> storage \<lparr>storage = 0, offset = 0, shape = [1, 1, 2, 2], stride = [4, 4, 2, 1]\<rparr>"
proof -
  note run = toy_run [of "()"]
  have v: "storage \<lparr>storage = 0, offset = 0, shape = [1, 1, 2, 2], stride = [4, 4, 2, 1]\<rparr>
       < length (storages \<lparr>storages = [[Fin (- 1 / 2), Fin (1 / 2), Fin 1, Fin (3 / 2)]],
                           streams = []\<rparr>)"
    by simp
  show ?thesis
    using forward_input_untouched [OF run v] run v unfolding toy_contents by simp
qed

end
